theory Spec2Isabelle
  imports Main
begin

section \<open>Conway's Game of Life engine (class \<open>Conway<T>\<close> of conway.cxx)\<close>

text \<open>
  The class \<open>Conway<T>\<close> of \<open>conway.cxx\<close> is embedded with explicit state passing.
  Grid dimensions and loop counters are C++ \<open>int\<close>s; no \<open>int\<close> computation of the class
  leaves the 32-bit range for dimensions a vector can be allocated with, so they are HOL
  integers. Coordinates are \<open>std::tuple<short, short>\<close>: every value stored into a
  coordinate is narrowed to 16 bits, which is written out with \<open>to_short\<close>. Cells have the
  template type \<open>T\<close> (\<open>char\<close> in \<open>main\<close>); the class only stores 0 and 1 into them and only
  compares them with 0 and 1, so they are integers here. Indexing a \<open>std::vector\<close> outside
  its bounds, dividing by zero and the library's failing allocation are error values.
\<close>

subsection \<open>Machine arithmetic\<close>

text \<open>Narrowing conversion of an \<open>int\<close> to \<open>short\<close> (two's complement, 16 bits).\<close>

definition to_short :: "int \<Rightarrow> int" where
  "to_short v = (v + 32768) mod 65536 - 32768"

text \<open>The C++ remainder \<open>a % b\<close> for \<open>b \<noteq> 0\<close>: the quotient is truncated towards zero.\<close>

definition c_rem :: "int \<Rightarrow> int \<Rightarrow> int" where
  "c_rem a b = sgn a * (\<bar>a\<bar> mod \<bar>b\<bar>)"

subsection \<open>Data\<close>

datatype error = LengthError | OutOfBounds | DivisionByZero | InvalidDistribution

type_synonym cell = int

type_synonym grid = "cell list list"

type_synonym Coord = "int \<times> int"

record Conway =
  coords :: "Coord list"
  newGrid :: grid
  oldGrid :: grid
  gridWidth :: int
  gridHeight :: int

text \<open>
  \<open>g[x][y]\<close> on a \<open>std::vector<std::vector<T>>\<close>: the index is converted to the
  unsigned \<open>size_type\<close>, so a negative index is as far out of range as a too large one.
\<close>

definition grid_get :: "grid \<Rightarrow> int \<Rightarrow> int \<Rightarrow> error + cell" where
  "grid_get g x y =
     (if 0 \<le> x \<and> nat x < length g \<and> 0 \<le> y \<and> nat y < length (g ! nat x)
      then Inr (g ! nat x ! nat y)
      else Inl OutOfBounds)"

definition grid_set :: "grid \<Rightarrow> int \<Rightarrow> int \<Rightarrow> cell \<Rightarrow> error + grid" where
  "grid_set g x y v =
     (if 0 \<le> x \<and> nat x < length g \<and> 0 \<le> y \<and> nat y < length (g ! nat x)
      then Inr (g[nat x := (g ! nat x)[nat y := v]])
      else Inl OutOfBounds)"

subsection \<open>Constructor\<close>

text \<open>
  \<open>Conway(int width, int height)\<close> checks nothing itself. The inner
  \<open>std::vector<T>(height, 0)\<close> is built first, then the outer vector of \<open>width\<close> copies; a
  negative count converts to a \<open>size_type\<close> beyond \<open>max_size()\<close> and the vector constructor
  throws \<open>std::length_error\<close>. A count of zero is an empty vector. Running out of memory
  for a large grid is not modelled.
\<close>

definition neighbourOffsets :: "Coord list" where
  "neighbourOffsets = [(0, 1), (0, -1), (1, 0), (-1, 0), (1, 1), (-1, -1), (1, -1), (-1, 1)]"

definition Conway_constructor :: "int \<Rightarrow> int \<Rightarrow> error + Conway" where
  "Conway_constructor width height =
     (if height < 0 then Inl LengthError
      else if width < 0 then Inl LengthError
      else Inr \<lparr> coords = neighbourOffsets,
                 newGrid = replicate (nat width) (replicate (nat height) 0),
                 oldGrid = replicate (nat width) (replicate (nat height) 0),
                 gridWidth = width,
                 gridHeight = height \<rparr>)"

subsection \<open>Coordinate normalisation and grid access\<close>

definition verifyCoordBounds :: "Conway \<Rightarrow> Coord \<Rightarrow> error + Coord" where
  "verifyCoordBounds s cc =
     (let x = fst cc; y = snd cc in
      case (if x < 0 then Inr (to_short (gridWidth s - 1 + x))
            else if x \<ge> gridWidth s then
              (if gridWidth s = 0 then Inl DivisionByZero
               else Inr (to_short (c_rem x (gridWidth s))))
            else Inr x) of
        Inl e \<Rightarrow> Inl e
      | Inr x' \<Rightarrow>
          (case (if y < 0 then Inr (to_short (gridHeight s - 1 + y))
                 else if y \<ge> gridHeight s then
                   (if gridHeight s = 0 then Inl DivisionByZero
                    else Inr (to_short (c_rem y (gridHeight s))))
                 else Inr y) of
             Inl e \<Rightarrow> Inl e
           | Inr y' \<Rightarrow> Inr (x', y')))"

definition readGrid :: "Conway \<Rightarrow> Coord \<Rightarrow> error + cell" where
  "readGrid s cc = grid_get (oldGrid s) (fst cc) (snd cc)"

definition writeGrid :: "Conway \<Rightarrow> Coord \<Rightarrow> cell \<Rightarrow> error + Conway" where
  "writeGrid s cc val =
     (case grid_set (newGrid s) (fst cc) (snd cc) val of
        Inl e \<Rightarrow> Inl e
      | Inr g \<Rightarrow> Inr (s\<lparr>newGrid := g\<rparr>))"

definition fullGrid :: "Conway \<Rightarrow> grid" where
  "fullGrid s = newGrid s"

subsection \<open>The update loop\<close>

text \<open>
  The loop over \<open>coords\<close> in \<open>update\<close>: \<open>numLiveNeighbors\<close> is a \<open>short\<close>, incremented for
  every neighbour whose cell reads as 1.
\<close>

fun countLiveNeighbors :: "Conway \<Rightarrow> int \<Rightarrow> int \<Rightarrow> Coord list \<Rightarrow> int \<Rightarrow> error + int" where
  "countLiveNeighbors s i j [] numLiveNeighbors = Inr numLiveNeighbors"
| "countLiveNeighbors s i j (cc # ccs) numLiveNeighbors =
     (case verifyCoordBounds s (to_short (i + fst cc), to_short (j + snd cc)) of
        Inl e \<Rightarrow> Inl e
      | Inr nIdx \<Rightarrow>
          (case readGrid s nIdx of
             Inl e \<Rightarrow> Inl e
           | Inr v \<Rightarrow>
               countLiveNeighbors s i j ccs
                 (if v = 1 then to_short (numLiveNeighbors + 1) else numLiveNeighbors)))"

text \<open>The body of the two nested loops of \<open>update\<close>, for the cell \<open>(i, j)\<close>.\<close>

definition update_cell :: "int \<Rightarrow> int \<Rightarrow> Conway \<Rightarrow> error + Conway" where
  "update_cell i j s =
     (let idx = (to_short i, to_short j) in
      case readGrid s idx of
        Inl e \<Rightarrow> Inl e
      | Inr isAlive \<Rightarrow>
          (case countLiveNeighbors s i j (coords s) 0 of
             Inl e \<Rightarrow> Inl e
           | Inr numLiveNeighbors \<Rightarrow>
               if isAlive \<noteq> 0 \<and> (numLiveNeighbors = 2 \<or> numLiveNeighbors = 3)
                 then writeGrid s idx 1
               else if \<not> isAlive \<noteq> 0 \<and> numLiveNeighbors = 3
                 then writeGrid s idx 1
               else if isAlive \<noteq> 0
                 then writeGrid s idx 0
               else writeGrid s idx 0))"

text \<open>
  The two loops of \<open>update\<close> read their bounds from the engine in every iteration. That
  they terminate rests on the loop body leaving the dimensions unchanged.
\<close>

lemma writeGrid_dims:
  "writeGrid s cc v = Inr s' \<Longrightarrow>
     gridWidth s' = gridWidth s \<and> gridHeight s' = gridHeight s \<and>
     coords s' = coords s \<and> oldGrid s' = oldGrid s"
  by (auto simp: writeGrid_def split: sum.splits)

lemma update_cell_dims:
  "update_cell i j s = Inr s' \<Longrightarrow>
     gridWidth s' = gridWidth s \<and> gridHeight s' = gridHeight s \<and>
     coords s' = coords s \<and> oldGrid s' = oldGrid s"
  unfolding update_cell_def Let_def
  by (auto split: sum.splits if_splits dest!: writeGrid_dims)

function update_inner :: "int \<Rightarrow> int \<Rightarrow> Conway \<Rightarrow> error + Conway" where
  "update_inner i j s =
     (if j < gridHeight s then
        (case update_cell i j s of
           Inl e \<Rightarrow> Inl e
         | Inr s' \<Rightarrow> update_inner i (j + 1) s')
      else Inr s)"
  by pat_completeness auto
termination
  by (relation "measure (\<lambda>(i, j, s). nat (gridHeight s - j))")
     (auto dest!: update_cell_dims)

declare update_inner.simps [simp del]

lemma update_inner_dims:
  "update_inner i j s = Inr s' \<Longrightarrow>
     gridWidth s' = gridWidth s \<and> gridHeight s' = gridHeight s \<and>
     coords s' = coords s \<and> oldGrid s' = oldGrid s"
proof (induction i j s rule: update_inner.induct)
  case (1 i j s)
  show ?case
  proof (cases "j < gridHeight s")
    case True
    with "1.prems" obtain t where t: "update_cell i j s = Inr t"
      and r: "update_inner i (j + 1) t = Inr s'"
      by (subst (asm) update_inner.simps) (auto split: sum.splits)
    from "1.IH" [OF True t r] update_cell_dims [OF t] show ?thesis by simp
  next
    case False
    with "1.prems" show ?thesis by (subst (asm) update_inner.simps) simp
  qed
qed

function update_outer :: "int \<Rightarrow> Conway \<Rightarrow> error + Conway" where
  "update_outer i s =
     (if i < gridWidth s then
        (case update_inner i 0 s of
           Inl e \<Rightarrow> Inl e
         | Inr s' \<Rightarrow> update_outer (i + 1) s')
      else Inr s)"
  by pat_completeness auto
termination
  by (relation "measure (\<lambda>(i, s). nat (gridWidth s - i))")
     (auto dest!: update_inner_dims)

declare update_outer.simps [simp del]

definition update :: "Conway \<Rightarrow> error + Conway" where
  "update s = update_outer 0 (s\<lparr>oldGrid := newGrid s, newGrid := oldGrid s\<rparr>)"

text \<open>\<open>n\<close> successive calls of \<open>update\<close>, as the main loop makes them.\<close>

fun updates :: "nat \<Rightarrow> Conway \<Rightarrow> error + Conway" where
  "updates 0 s = Inr s"
| "updates (Suc n) s = (case update s of Inl e \<Rightarrow> Inl e | Inr s' \<Rightarrow> updates n s')"

subsection \<open>Random initialisation\<close>

text \<open>
  \<open>randomInitialization\<close> binds \<open>std::uniform_int_distribution<>(0, sparseness)\<close> to a
  \<open>std::default_random_engine()\<close> that it constructs itself, default-seeded, on every call.
  Both belong to the C++ library, so the generator is a parameter: \<open>std_gen sparseness k\<close> is
  the value of the \<open>k\<close>-th call \<open>gen()\<close> (counting from 0) of the generator bound that way.
  The number of draws made so far is threaded through the loops; it starts at 0 in every
  call, because the engine is built anew. The distribution requires \<open>0 \<le> sparseness\<close>.
  The draw is stored into a \<open>short\<close>. The parameter \<open>sparseness\<close> is a \<open>short\<close> itself, so
  the function is only ever applied to values up to 32767.
\<close>

definition randomInitialization_cell ::
    "(nat \<Rightarrow> int) \<Rightarrow> int \<Rightarrow> int \<Rightarrow> nat \<times> Conway \<Rightarrow> error + nat \<times> Conway" where
  "randomInitialization_cell gen i j ks =
     (let k = fst ks; s = snd ks; b = to_short (gen k) in
      if b = 0 then
        (case grid_set (newGrid s) i j 1 of
           Inl e \<Rightarrow> Inl e
         | Inr g1 \<Rightarrow>
             (case grid_set (oldGrid s) i j 1 of
                Inl e \<Rightarrow> Inl e
              | Inr g2 \<Rightarrow> Inr (Suc k, s\<lparr>newGrid := g1, oldGrid := g2\<rparr>)))
      else
        (case grid_set (newGrid s) i j 0 of
           Inl e \<Rightarrow> Inl e
         | Inr g1 \<Rightarrow>
             (case grid_set (oldGrid s) i j 0 of
                Inl e \<Rightarrow> Inl e
              | Inr g2 \<Rightarrow> Inr (Suc k, s\<lparr>newGrid := g1, oldGrid := g2\<rparr>))))"

text \<open>The loops terminate because the body leaves the dimensions unchanged.\<close>

lemma randomInitialization_cell_dims:
  "randomInitialization_cell gen i j ks = Inr ks' \<Longrightarrow>
     gridWidth (snd ks') = gridWidth (snd ks) \<and> gridHeight (snd ks') = gridHeight (snd ks) \<and>
     coords (snd ks') = coords (snd ks) \<and> fst ks' = Suc (fst ks)"
  unfolding randomInitialization_cell_def Let_def
  by (auto split: sum.splits if_splits)

function randomInitialization_inner ::
    "(nat \<Rightarrow> int) \<Rightarrow> int \<Rightarrow> int \<Rightarrow> nat \<times> Conway \<Rightarrow> error + nat \<times> Conway" where
  "randomInitialization_inner gen i j ks =
     (if j < gridHeight (snd ks) then
        (case randomInitialization_cell gen i j ks of
           Inl e \<Rightarrow> Inl e
         | Inr ks' \<Rightarrow> randomInitialization_inner gen i (j + 1) ks')
      else Inr ks)"
  by pat_completeness auto
termination
  by (relation "measure (\<lambda>(gen, i, j, ks). nat (gridHeight (snd ks) - j))")
     (auto dest!: randomInitialization_cell_dims)

declare randomInitialization_inner.simps [simp del]

lemma randomInitialization_inner_dims:
  "randomInitialization_inner gen i j ks = Inr ks' \<Longrightarrow>
     gridWidth (snd ks') = gridWidth (snd ks) \<and> gridHeight (snd ks') = gridHeight (snd ks) \<and>
     coords (snd ks') = coords (snd ks)"
proof (induction gen i j ks rule: randomInitialization_inner.induct)
  case (1 gen i j ks)
  show ?case
  proof (cases "j < gridHeight (snd ks)")
    case True
    with "1.prems" obtain t where t: "randomInitialization_cell gen i j ks = Inr t"
      and r: "randomInitialization_inner gen i (j + 1) t = Inr ks'"
      by (subst (asm) randomInitialization_inner.simps) (auto split: sum.splits)
    from "1.IH" [OF True t r] randomInitialization_cell_dims [OF t] show ?thesis by simp
  next
    case False
    with "1.prems" show ?thesis
      by (subst (asm) randomInitialization_inner.simps) simp
  qed
qed

function randomInitialization_outer ::
    "(nat \<Rightarrow> int) \<Rightarrow> int \<Rightarrow> nat \<times> Conway \<Rightarrow> error + nat \<times> Conway" where
  "randomInitialization_outer gen i ks =
     (if i < gridWidth (snd ks) then
        (case randomInitialization_inner gen i 0 ks of
           Inl e \<Rightarrow> Inl e
         | Inr ks' \<Rightarrow> randomInitialization_outer gen (i + 1) ks')
      else Inr ks)"
  by pat_completeness auto
termination
  by (relation "measure (\<lambda>(gen, i, ks). nat (gridWidth (snd ks) - i))")
     (auto dest!: randomInitialization_inner_dims)

declare randomInitialization_outer.simps [simp del]

definition randomInitialization :: "(int \<Rightarrow> nat \<Rightarrow> int) \<Rightarrow> int \<Rightarrow> Conway \<Rightarrow> error + Conway" where
  "randomInitialization std_gen sparseness s =
     (if sparseness < 0 then Inl InvalidDistribution
      else case randomInitialization_outer (std_gen sparseness) 0 (0, s) of
             Inl e \<Rightarrow> Inl e
           | Inr ks \<Rightarrow> Inr (snd ks))"

subsection \<open>The class invariant\<close>

text \<open>
  What the constructor establishes and every member function keeps: the eight neighbour
  offsets, and two grids of \<open>gridWidth\<close> columns of \<open>gridHeight\<close> cells each.
\<close>

definition grid_dims :: "grid \<Rightarrow> int \<Rightarrow> int \<Rightarrow> bool" where
  "grid_dims g w h = (length g = nat w \<and> list_all (\<lambda>col. length col = nat h) g)"

definition well_formed :: "Conway \<Rightarrow> bool" where
  "well_formed s =
     (0 \<le> gridWidth s \<and> 0 \<le> gridHeight s \<and> coords s = neighbourOffsets \<and>
      grid_dims (newGrid s) (gridWidth s) (gridHeight s) \<and>
      grid_dims (oldGrid s) (gridWidth s) (gridHeight s))"

text \<open>Every cell of a grid is 0 or 1.\<close>

definition binary_grid :: "grid \<Rightarrow> bool" where
  "binary_grid g = list_all (list_all (\<lambda>c. c = 0 \<or> c = 1)) g"

subsection \<open>Specification functions\<close>

text \<open>
  Functions and predicates the properties below are stated with. They are not functions of
  the program: \<open>wrap_component\<close> is what one component of \<open>verifyCoordBounds\<close> computes
  when no narrowing to \<open>short\<close> changes a value, \<open>live_neighbours\<close> is the neighbour count
  in closed form, \<open>transition\<close> is the rule of the game as the specification words it, and
  \<open>steppable\<close> collects the engines on which \<open>update\<close> runs to completion.
\<close>

definition wrap_component :: "int \<Rightarrow> int \<Rightarrow> int" where
  "wrap_component d v = (if v < 0 then d - 1 + v else if d \<le> v then v mod d else v)"

definition live_at :: "Conway \<Rightarrow> int \<Rightarrow> int \<Rightarrow> Coord \<Rightarrow> bool" where
  "live_at s i j cc =
     (oldGrid s ! nat (wrap_component (gridWidth s) (i + fst cc))
                ! nat (wrap_component (gridHeight s) (j + snd cc)) = 1)"

definition live_neighbours :: "Conway \<Rightarrow> int \<Rightarrow> int \<Rightarrow> int" where
  "live_neighbours s i j = int (length (filter (live_at s i j) neighbourOffsets))"

definition transition :: "cell \<Rightarrow> int \<Rightarrow> cell" where
  "transition c n = (if (c \<noteq> 0 \<and> (n = 2 \<or> n = 3)) \<or> (c = 0 \<and> n = 3) then 1 else 0)"

definition next_cell :: "Conway \<Rightarrow> int \<Rightarrow> int \<Rightarrow> cell" where
  "next_cell s i j = transition (oldGrid s ! nat i ! nat j) (live_neighbours s i j)"

definition steppable :: "Conway \<Rightarrow> bool" where
  "steppable s =
     (well_formed s \<and> 2 \<le> gridWidth s \<and> gridWidth s \<le> 32767 \<and>
      2 \<le> gridHeight s \<and> gridHeight s \<le> 32767)"

definition unit_offsets :: "Coord list \<Rightarrow> bool" where
  "unit_offsets cs = list_all (\<lambda>cc. - 1 \<le> fst cc \<and> fst cc \<le> 1 \<and> - 1 \<le> snd cc \<and> snd cc \<le> 1) cs"

text \<open>
  What \<open>randomInitialization\<close> stores for the \<open>k\<close>-th draw, and the grid it builds: the
  cell \<open>(x, y)\<close> receives the draw number \<open>x * gridHeight + y\<close>.
\<close>

definition random_cell :: "(nat \<Rightarrow> int) \<Rightarrow> nat \<Rightarrow> cell" where
  "random_cell gen k = (if to_short (gen k) = 0 then 1 else 0)"

definition random_grid :: "(nat \<Rightarrow> int) \<Rightarrow> int \<Rightarrow> int \<Rightarrow> grid" where
  "random_grid gen w h =
     map (\<lambda>x. map (\<lambda>y. random_cell gen (x * nat h + y)) [0..<nat h]) [0..<nat w]"

text \<open>
  The still life of C7: a 2 by 2 block of live cells in the columns \<open>a\<close>, \<open>a + 1\<close> and the
  rows \<open>b\<close>, \<open>b + 1\<close> of a grid of \<open>w\<close> columns and \<open>h\<close> rows, all other cells dead,
  and the engine that holds it in both grids.
\<close>

definition block_cell :: "int \<Rightarrow> int \<Rightarrow> int \<Rightarrow> int \<Rightarrow> cell" where
  "block_cell a b x y = (if (x = a \<or> x = a + 1) \<and> (y = b \<or> y = b + 1) then 1 else 0)"

definition block_grid :: "int \<Rightarrow> int \<Rightarrow> int \<Rightarrow> int \<Rightarrow> grid" where
  "block_grid w h a b =
     map (\<lambda>x. map (\<lambda>y. block_cell a b (int x) (int y)) [0..<nat h]) [0..<nat w]"

definition block_engine :: "int \<Rightarrow> int \<Rightarrow> int \<Rightarrow> int \<Rightarrow> Conway" where
  "block_engine w h a b =
     \<lparr> coords = neighbourOffsets, newGrid = block_grid w h a b, oldGrid = block_grid w h a b,
       gridWidth = w, gridHeight = h \<rparr>"

section \<open>Properties\<close>

subsection \<open>Auxiliary facts\<close>

subsubsection \<open>Grids and coordinates\<close>

lemma grid_dims_replicate:
  "0 \<le> w \<Longrightarrow> 0 \<le> h \<Longrightarrow> grid_dims (replicate (nat w) (replicate (nat h) c)) w h"
  by (simp add: grid_dims_def list_all_length)

lemma to_short_id: "- 32768 \<le> v \<Longrightarrow> v \<le> 32767 \<Longrightarrow> to_short v = v"
  by (simp add: to_short_def)

lemma grid_dims_nth:
  "grid_dims g w h \<Longrightarrow> x < nat w \<Longrightarrow> length (g ! x) = nat h"
  by (simp add: grid_dims_def list_all_length)

lemma grid_get_inside:
  "grid_dims g w h \<Longrightarrow> 0 \<le> x \<Longrightarrow> x < w \<Longrightarrow> 0 \<le> y \<Longrightarrow> y < h \<Longrightarrow>
     grid_get g x y = Inr (g ! nat x ! nat y)"
  by (simp add: grid_get_def grid_dims_def list_all_length)

lemma grid_set_inside:
  "grid_dims g w h \<Longrightarrow> 0 \<le> x \<Longrightarrow> x < w \<Longrightarrow> 0 \<le> y \<Longrightarrow> y < h \<Longrightarrow>
     grid_set g x y v = Inr (g[nat x := (g ! nat x)[nat y := v]])"
  by (simp add: grid_set_def grid_dims_def list_all_length)

lemma grid_dims_update:
  "grid_dims g w h \<Longrightarrow> grid_dims (g[x := (g ! x)[y := v]]) w h"
  by (cases "x < length g") (auto simp: grid_dims_def list_all_length nth_list_update)

lemma grid_update_nth:
  "grid_dims g w h \<Longrightarrow> x < nat w \<Longrightarrow> y < nat h \<Longrightarrow> a < nat w \<Longrightarrow> b < nat h \<Longrightarrow>
     g[x := (g ! x)[y := v]] ! a ! b = (if a = x \<and> b = y then v else g ! a ! b)"
  by (auto simp: grid_dims_def list_all_length nth_list_update)

lemma verifyCoordBounds_short:
  assumes "1 \<le> gridWidth s" "gridWidth s \<le> 32767" "1 \<le> gridHeight s" "gridHeight s \<le> 32767"
    and "- 32768 \<le> x" "x \<le> 32767" "- 32768 \<le> y" "y \<le> 32767"
  shows "verifyCoordBounds s (x, y) =
           Inr (wrap_component (gridWidth s) x, wrap_component (gridHeight s) y)"
proof -
  have m: "\<And>d v::int. 1 \<le> d \<Longrightarrow> d \<le> 32767 \<Longrightarrow> d \<le> v \<Longrightarrow> to_short (c_rem v d) = v mod d"
  proof -
    fix d v :: int assume d: "1 \<le> d" "d \<le> 32767" "d \<le> v"
    then have "c_rem v d = v mod d" by (simp add: c_rem_def)
    moreover have "0 \<le> v mod d" "v mod d < d" using d by simp_all
    then have "to_short (v mod d) = v mod d" using d by (intro to_short_id) linarith+
    ultimately show "to_short (c_rem v d) = v mod d" by simp
  qed
  show ?thesis using assms
    by (simp add: verifyCoordBounds_def wrap_component_def to_short_id m)
qed

lemma wrap_component_neighbour:
  "2 \<le> d \<Longrightarrow> 0 \<le> i \<Longrightarrow> i < d \<Longrightarrow> - 1 \<le> o' \<Longrightarrow> o' \<le> 1 \<Longrightarrow>
     0 \<le> wrap_component d (i + o') \<and> wrap_component d (i + o') < d"
  by (auto simp: wrap_component_def)

subsubsection \<open>The neighbour count in closed form\<close>

lemma unit_offsets_neighbourOffsets: "unit_offsets neighbourOffsets"
  by (simp add: unit_offsets_def neighbourOffsets_def)

lemma neighbour_read:
  assumes st: "steppable s" and i: "0 \<le> i" "i < gridWidth s" and j: "0 \<le> j" "j < gridHeight s"
    and cc: "- 1 \<le> fst cc" "fst cc \<le> 1" "- 1 \<le> snd cc" "snd cc \<le> 1"
  shows "\<exists>nIdx. verifyCoordBounds s (to_short (i + fst cc), to_short (j + snd cc)) = Inr nIdx \<and>
           readGrid s nIdx =
             Inr (oldGrid s ! nat (wrap_component (gridWidth s) (i + fst cc))
                            ! nat (wrap_component (gridHeight s) (j + snd cc)))"
proof -
  from st have w: "2 \<le> gridWidth s" "gridWidth s \<le> 32767"
    and h: "2 \<le> gridHeight s" "gridHeight s \<le> 32767"
    and g: "grid_dims (oldGrid s) (gridWidth s) (gridHeight s)"
    by (simp_all add: steppable_def well_formed_def)
  have sx: "to_short (i + fst cc) = i + fst cc" using i w cc by (intro to_short_id) linarith+
  have sy: "to_short (j + snd cc) = j + snd cc" using j h cc by (intro to_short_id) linarith+
  have v: "verifyCoordBounds s (i + fst cc, j + snd cc) =
      Inr (wrap_component (gridWidth s) (i + fst cc), wrap_component (gridHeight s) (j + snd cc))"
    using i j w h cc by (intro verifyCoordBounds_short) linarith+
  have bx: "0 \<le> wrap_component (gridWidth s) (i + fst cc)"
       "wrap_component (gridWidth s) (i + fst cc) < gridWidth s"
    using wrap_component_neighbour [of "gridWidth s" i "fst cc"] w i cc by simp_all
  have by': "0 \<le> wrap_component (gridHeight s) (j + snd cc)"
       "wrap_component (gridHeight s) (j + snd cc) < gridHeight s"
    using wrap_component_neighbour [of "gridHeight s" j "snd cc"] h j cc by simp_all
  show ?thesis
    by (simp add: sx sy v readGrid_def grid_get_inside [OF g bx by'])
qed

lemma countLiveNeighbors_closed:
  assumes st: "steppable s" and i: "0 \<le> i" "i < gridWidth s" and j: "0 \<le> j" "j < gridHeight s"
  shows "unit_offsets cs \<Longrightarrow> 0 \<le> acc \<Longrightarrow> acc + int (length cs) \<le> 32767 \<Longrightarrow>
           countLiveNeighbors s i j cs acc = Inr (acc + int (length (filter (live_at s i j) cs)))"
proof (induction cs arbitrary: acc)
  case Nil
  then show ?case by simp
next
  case (Cons cc cs)
  from Cons.prems have cc: "- 1 \<le> fst cc" "fst cc \<le> 1" "- 1 \<le> snd cc" "snd cc \<le> 1"
    and cs: "unit_offsets cs"
    by (simp_all add: unit_offsets_def)
  from neighbour_read [OF st i j cc] obtain nIdx where
    n: "verifyCoordBounds s (to_short (i + fst cc), to_short (j + snd cc)) = Inr nIdx"
    and r: "readGrid s nIdx =
             Inr (oldGrid s ! nat (wrap_component (gridWidth s) (i + fst cc))
                            ! nat (wrap_component (gridHeight s) (j + snd cc)))"
    by blast
  show ?case
  proof (cases "live_at s i j cc")
    case True
    have "to_short (acc + 1) = acc + 1" using Cons.prems by (intro to_short_id) simp_all
    moreover have "countLiveNeighbors s i j cs (acc + 1) =
        Inr (acc + 1 + int (length (filter (live_at s i j) cs)))"
      using Cons.prems cs by (intro Cons.IH) simp_all
    moreover have "oldGrid s ! nat (wrap_component (gridWidth s) (i + fst cc))
                            ! nat (wrap_component (gridHeight s) (j + snd cc)) = 1"
      using True by (simp add: live_at_def)
    ultimately show ?thesis using True n r by simp
  next
    case False
    have "countLiveNeighbors s i j cs acc = Inr (acc + int (length (filter (live_at s i j) cs)))"
      using Cons.prems cs by (intro Cons.IH) simp_all
    moreover have "oldGrid s ! nat (wrap_component (gridWidth s) (i + fst cc))
                            ! nat (wrap_component (gridHeight s) (j + snd cc)) \<noteq> 1"
      using False by (simp add: live_at_def)
    ultimately show ?thesis using False n r by simp
  qed
qed

lemma countLiveNeighbors_steppable:
  assumes "steppable s" "0 \<le> i" "i < gridWidth s" "0 \<le> j" "j < gridHeight s"
  shows "countLiveNeighbors s i j (coords s) 0 = Inr (live_neighbours s i j)"
proof -
  from assms(1) have c: "coords s = neighbourOffsets"
    by (simp add: steppable_def well_formed_def)
  have "countLiveNeighbors s i j neighbourOffsets 0 =
          Inr (0 + int (length (filter (live_at s i j) neighbourOffsets)))"
    using assms unit_offsets_neighbourOffsets
    by (intro countLiveNeighbors_closed) (simp_all add: neighbourOffsets_def)
  then show ?thesis by (simp add: c live_neighbours_def)
qed

subsubsection \<open>The loops of update, run to completion\<close>

lemma update_cell_steppable:
  assumes st: "steppable s" and i: "0 \<le> i" "i < gridWidth s" and j: "0 \<le> j" "j < gridHeight s"
  shows "update_cell i j s =
           Inr (s\<lparr>newGrid := (newGrid s)[nat i := (newGrid s ! nat i)[nat j := next_cell s i j]]\<rparr>)"
proof -
  from st have w: "gridWidth s \<le> 32767" and h: "gridHeight s \<le> 32767"
    and go: "grid_dims (oldGrid s) (gridWidth s) (gridHeight s)"
    and gn: "grid_dims (newGrid s) (gridWidth s) (gridHeight s)"
    by (simp_all add: steppable_def well_formed_def)
  have si: "to_short i = i" using i w by (intro to_short_id) linarith+
  have sj: "to_short j = j" using j h by (intro to_short_id) linarith+
  have r: "readGrid s (i, j) = Inr (oldGrid s ! nat i ! nat j)"
    by (simp add: readGrid_def grid_get_inside [OF go i j])
  have wr: "\<And>v. writeGrid s (i, j) v =
      Inr (s\<lparr>newGrid := (newGrid s)[nat i := (newGrid s ! nat i)[nat j := v]]\<rparr>)"
    by (simp add: writeGrid_def grid_set_inside [OF gn i j])
  show ?thesis
    unfolding update_cell_def Let_def si sj r countLiveNeighbors_steppable [OF st i j]
    by (simp add: wr next_cell_def transition_def)
qed

lemma live_at_frame:
  "oldGrid t = oldGrid s \<Longrightarrow> gridWidth t = gridWidth s \<Longrightarrow> gridHeight t = gridHeight s \<Longrightarrow>
     live_at t i j = live_at s i j"
  by (rule ext) (simp add: live_at_def)

lemma next_cell_frame:
  "oldGrid t = oldGrid s \<Longrightarrow> gridWidth t = gridWidth s \<Longrightarrow> gridHeight t = gridHeight s \<Longrightarrow>
     next_cell t i j = next_cell s i j"
  using live_at_frame [of t s i j] by (simp add: next_cell_def live_neighbours_def)

lemma steppable_newGrid_update:
  "steppable s \<Longrightarrow> steppable (s\<lparr>newGrid := (newGrid s)[x := (newGrid s ! x)[y := v]]\<rparr>)"
  by (simp add: steppable_def well_formed_def grid_dims_update)

lemma update_inner_steppable:
  "steppable s \<Longrightarrow> 0 \<le> i \<Longrightarrow> i < gridWidth s \<Longrightarrow> 0 \<le> j \<Longrightarrow>
     \<exists>s'. update_inner i j s = Inr s' \<and> steppable s' \<and> oldGrid s' = oldGrid s \<and>
          gridWidth s' = gridWidth s \<and> gridHeight s' = gridHeight s \<and>
          (\<forall>x y. x < nat (gridWidth s) \<longrightarrow> y < nat (gridHeight s) \<longrightarrow>
             newGrid s' ! x ! y =
               (if x = nat i \<and> nat j \<le> y then next_cell s i (int y) else newGrid s ! x ! y))"
proof (induction i j s rule: update_inner.induct)
  case (1 i j s)
  show ?case
  proof (cases "j < gridHeight s")
    case False
    have u: "update_inner i j s = Inr s"
      using False by (subst update_inner.simps) simp
    have "newGrid s ! x ! y =
               (if x = nat i \<and> nat j \<le> y then next_cell s i (int y) else newGrid s ! x ! y)"
      if "y < nat (gridHeight s)" for x y
    proof -
      from that False have "\<not> nat j \<le> y" by linarith
      then show ?thesis by simp
    qed
    with u "1.prems"(1) show ?thesis
      by (intro exI [of _ s]) simp
  next
    case True
    define t where "t = s\<lparr>newGrid := (newGrid s)[nat i := (newGrid s ! nat i)[nat j := next_cell s i j]]\<rparr>"
    have c: "update_cell i j s = Inr t"
      unfolding t_def using "1.prems" True by (intro update_cell_steppable) simp_all
    have t: "steppable t" "oldGrid t = oldGrid s" "gridWidth t = gridWidth s"
      "gridHeight t = gridHeight s"
      using "1.prems"(1) by (simp_all add: t_def steppable_newGrid_update)
    have "\<exists>s'. update_inner i (j + 1) t = Inr s' \<and> steppable s' \<and> oldGrid s' = oldGrid t \<and>
          gridWidth s' = gridWidth t \<and> gridHeight s' = gridHeight t \<and>
          (\<forall>x y. x < nat (gridWidth t) \<longrightarrow> y < nat (gridHeight t) \<longrightarrow>
             newGrid s' ! x ! y =
               (if x = nat i \<and> nat (j + 1) \<le> y then next_cell t i (int y) else newGrid t ! x ! y))"
      by (rule "1.IH" [OF True c t(1)]) (use "1.prems" t in simp_all)
    then obtain s' where
      s': "update_inner i (j + 1) t = Inr s'" "steppable s'" "oldGrid s' = oldGrid s"
        "gridWidth s' = gridWidth s" "gridHeight s' = gridHeight s"
      and cells: "\<And>x y. x < nat (gridWidth s) \<Longrightarrow> y < nat (gridHeight s) \<Longrightarrow>
             newGrid s' ! x ! y =
               (if x = nat i \<and> nat (j + 1) \<le> y then next_cell t i (int y) else newGrid t ! x ! y)"
      unfolding t(2-4) by blast
    have u: "update_inner i j s = Inr s'"
      using True c s'(1) by (subst update_inner.simps) simp
    have g: "grid_dims (newGrid s) (gridWidth s) (gridHeight s)"
      using "1.prems"(1) by (simp add: steppable_def well_formed_def)
    have j1: "nat (j + 1) = Suc (nat j)" using "1.prems" by simp
    have final: "newGrid s' ! x ! y =
               (if x = nat i \<and> nat j \<le> y then next_cell s i (int y) else newGrid s ! x ! y)"
      if xy: "x < nat (gridWidth s)" "y < nat (gridHeight s)" for x y
    proof -
      have ij: "nat i < nat (gridWidth s)" "nat j < nat (gridHeight s)"
        using "1.prems" True by simp_all
      have nt: "newGrid t ! x ! y =
          (if x = nat i \<and> y = nat j then next_cell s i j else newGrid s ! x ! y)"
        unfolding t_def by (simp add: grid_update_nth [OF g ij xy])
      have nc: "next_cell t i (int y) = next_cell s i (int y)"
        using t by (intro next_cell_frame) simp_all
      show ?thesis
      proof (cases "x = nat i \<and> nat j \<le> y")
        case inside: True
        show ?thesis
        proof (cases "y = nat j")
          case True
          then have e: "int y = j" using "1.prems" by simp
          from True have n1: "\<not> (x = nat i \<and> Suc (nat j) \<le> y)" by simp
          from inside True have p2: "x = nat i \<and> y = nat j" by simp
          show ?thesis
            unfolding cells [OF xy] j1 if_not_P [OF n1] nt if_P [OF p2] if_P [OF inside] e ..
        next
          case False
          with inside have p1: "x = nat i \<and> Suc (nat j) \<le> y" by simp
          show ?thesis
            unfolding cells [OF xy] j1 if_P [OF p1] nc if_P [OF inside] ..
        qed
      next
        case False
        then have n1: "\<not> (x = nat i \<and> Suc (nat j) \<le> y)"
          and n2: "\<not> (x = nat i \<and> y = nat j)" by auto
        show ?thesis
          unfolding cells [OF xy] j1 if_not_P [OF n1] nt if_not_P [OF n2] if_not_P [OF False] ..
      qed
    qed
    show ?thesis
      by (intro exI [of _ s'] conjI allI impI) (fact u s'(2-5) | rule final, assumption+)+
  qed
qed

lemma update_outer_steppable:
  "steppable s \<Longrightarrow> 0 \<le> i \<Longrightarrow>
     \<exists>s'. update_outer i s = Inr s' \<and> steppable s' \<and> oldGrid s' = oldGrid s \<and>
          gridWidth s' = gridWidth s \<and> gridHeight s' = gridHeight s \<and>
          (\<forall>x y. x < nat (gridWidth s) \<longrightarrow> y < nat (gridHeight s) \<longrightarrow>
             newGrid s' ! x ! y =
               (if nat i \<le> x then next_cell s (int x) (int y) else newGrid s ! x ! y))"
proof (induction i s rule: update_outer.induct)
  case (1 i s)
  show ?case
  proof (cases "i < gridWidth s")
    case False
    have u: "update_outer i s = Inr s"
      using False by (subst update_outer.simps) simp
    have "newGrid s ! x ! y =
               (if nat i \<le> x then next_cell s (int x) (int y) else newGrid s ! x ! y)"
      if "x < nat (gridWidth s)" for x y
    proof -
      from that False have "\<not> nat i \<le> x" by linarith
      then show ?thesis by simp
    qed
    with u "1.prems"(1) show ?thesis
      by (intro exI [of _ s]) simp
  next
    case True
    from update_inner_steppable [OF "1.prems"(1) "1.prems"(2) True, of 0] obtain t where
      c: "update_inner i 0 s = Inr t" and t: "steppable t" "oldGrid t = oldGrid s"
        "gridWidth t = gridWidth s" "gridHeight t = gridHeight s"
      and row: "\<And>x y. x < nat (gridWidth s) \<Longrightarrow> y < nat (gridHeight s) \<Longrightarrow>
             newGrid t ! x ! y =
               (if x = nat i \<and> nat 0 \<le> y then next_cell s i (int y) else newGrid s ! x ! y)"
      by auto
    have "\<exists>s'. update_outer (i + 1) t = Inr s' \<and> steppable s' \<and> oldGrid s' = oldGrid t \<and>
          gridWidth s' = gridWidth t \<and> gridHeight s' = gridHeight t \<and>
          (\<forall>x y. x < nat (gridWidth t) \<longrightarrow> y < nat (gridHeight t) \<longrightarrow>
             newGrid s' ! x ! y =
               (if nat (i + 1) \<le> x then next_cell t (int x) (int y) else newGrid t ! x ! y))"
      by (rule "1.IH" [OF True c t(1)]) (use "1.prems" in simp)
    then obtain s' where
      s': "update_outer (i + 1) t = Inr s'" "steppable s'" "oldGrid s' = oldGrid s"
        "gridWidth s' = gridWidth s" "gridHeight s' = gridHeight s"
      and cells: "\<And>x y. x < nat (gridWidth s) \<Longrightarrow> y < nat (gridHeight s) \<Longrightarrow>
             newGrid s' ! x ! y =
               (if nat (i + 1) \<le> x then next_cell t (int x) (int y) else newGrid t ! x ! y)"
      unfolding t(2-4) by blast
    have u: "update_outer i s = Inr s'"
      using True c s'(1) by (subst update_outer.simps) simp
    have i1: "nat (i + 1) = Suc (nat i)" using "1.prems" by simp
    have final: "newGrid s' ! x ! y =
               (if nat i \<le> x then next_cell s (int x) (int y) else newGrid s ! x ! y)"
      if xy: "x < nat (gridWidth s)" "y < nat (gridHeight s)" for x y
    proof -
      have nc: "next_cell t (int x) (int y) = next_cell s (int x) (int y)"
        using t by (intro next_cell_frame) simp_all
      have nt: "newGrid t ! x ! y = (if x = nat i then next_cell s i (int y) else newGrid s ! x ! y)"
        using row [OF xy] by simp
      show ?thesis
      proof (cases "nat i \<le> x")
        case inside: True
        show ?thesis
        proof (cases "x = nat i")
          case True
          then have e: "int x = i" using "1.prems" by simp
          from True have n1: "\<not> Suc (nat i) \<le> x" by simp
          show ?thesis
            unfolding cells [OF xy] i1 if_not_P [OF n1] nt if_P [OF True] if_P [OF inside] e ..
        next
          case False
          with inside have p1: "Suc (nat i) \<le> x" by simp
          show ?thesis
            unfolding cells [OF xy] i1 if_P [OF p1] nc if_P [OF inside] ..
        qed
      next
        case False
        then have n1: "\<not> Suc (nat i) \<le> x" and n2: "x \<noteq> nat i" by auto
        show ?thesis
          unfolding cells [OF xy] i1 if_not_P [OF n1] nt if_not_P [OF n2] if_not_P [OF False] ..
      qed
    qed
    show ?thesis
      by (intro exI [of _ s'] conjI allI impI) (fact u s'(2-5) | rule final, assumption+)+
  qed
qed

lemma steppable_swap:
  "steppable s \<Longrightarrow> steppable (s\<lparr>oldGrid := newGrid s, newGrid := oldGrid s\<rparr>)"
  by (simp add: steppable_def well_formed_def)

lemma update_steppable:
  assumes "steppable s"
  shows "\<exists>s'. update s = Inr s' \<and> steppable s' \<and> oldGrid s' = newGrid s \<and>
          gridWidth s' = gridWidth s \<and> gridHeight s' = gridHeight s \<and>
          (\<forall>x y. x < nat (gridWidth s) \<longrightarrow> y < nat (gridHeight s) \<longrightarrow>
             newGrid s' ! x ! y = next_cell (s\<lparr>oldGrid := newGrid s\<rparr>) (int x) (int y))"
proof -
  let ?t = "s\<lparr>oldGrid := newGrid s, newGrid := oldGrid s\<rparr>"
  from update_outer_steppable [OF steppable_swap [OF assms], of 0] obtain s' where
    u: "update_outer 0 ?t = Inr s'" and s': "steppable s'" "oldGrid s' = newGrid s"
      "gridWidth s' = gridWidth s" "gridHeight s' = gridHeight s"
    and cells: "\<And>x y. x < nat (gridWidth s) \<Longrightarrow> y < nat (gridHeight s) \<Longrightarrow>
        newGrid s' ! x ! y = next_cell ?t (int x) (int y)"
    by auto
  have nc: "next_cell ?t i j = next_cell (s\<lparr>oldGrid := newGrid s\<rparr>) i j" for i j
    by (intro next_cell_frame) simp_all
  show ?thesis
    by (intro exI [of _ s'] conjI allI impI)
       (simp add: update_def u, fact s', fact s', fact s', fact s', simp add: cells nc)
qed

subsubsection \<open>What a step leaves unchanged\<close>

lemma update_outer_dims:
  "update_outer i s = Inr s' \<Longrightarrow>
     gridWidth s' = gridWidth s \<and> gridHeight s' = gridHeight s \<and>
     coords s' = coords s \<and> oldGrid s' = oldGrid s"
proof (induction i s rule: update_outer.induct)
  case (1 i s)
  show ?case
  proof (cases "i < gridWidth s")
    case True
    with "1.prems" obtain t where t: "update_inner i 0 s = Inr t"
      and r: "update_outer (i + 1) t = Inr s'"
      by (subst (asm) update_outer.simps) (auto split: sum.splits)
    from "1.IH" [OF True t r] update_inner_dims [OF t] show ?thesis by simp
  next
    case False
    with "1.prems" show ?thesis by (subst (asm) update_outer.simps) simp
  qed
qed

lemma verifyCoordBounds_frame:
  "gridWidth t = gridWidth s \<Longrightarrow> gridHeight t = gridHeight s \<Longrightarrow>
     verifyCoordBounds t cc = verifyCoordBounds s cc"
  by (simp add: verifyCoordBounds_def Let_def)

lemma countLiveNeighbors_frame:
  "oldGrid t = oldGrid s \<Longrightarrow> gridWidth t = gridWidth s \<Longrightarrow> gridHeight t = gridHeight s \<Longrightarrow>
     countLiveNeighbors t i j cs n = countLiveNeighbors s i j cs n"
proof (induction cs arbitrary: n)
  case Nil
  show ?case by simp
next
  case (Cons cc cs)
  have v: "verifyCoordBounds t (to_short (i + fst cc), to_short (j + snd cc)) =
      verifyCoordBounds s (to_short (i + fst cc), to_short (j + snd cc))"
    using Cons.prems by (intro verifyCoordBounds_frame) simp_all
  have r: "readGrid t nIdx = readGrid s nIdx" for nIdx
    using Cons.prems by (simp add: readGrid_def)
  show ?case
    by (simp add: v r Cons.IH [OF Cons.prems] split: sum.splits)
qed

lemma live_neighbours_frame:
  "oldGrid t = oldGrid s \<Longrightarrow> gridWidth t = gridWidth s \<Longrightarrow> gridHeight t = gridHeight s \<Longrightarrow>
     live_neighbours t i j = live_neighbours s i j"
  using live_at_frame [of t s i j] by (simp add: live_neighbours_def)

lemma update_2x2_example:
  "update \<lparr> coords = neighbourOffsets, newGrid = [[1, 0], [0, 0]], oldGrid = [[0, 0], [0, 1]],
            gridWidth = 2, gridHeight = 2 \<rparr> =
   Inr \<lparr> coords = neighbourOffsets, newGrid = [[1, 0], [0, 0]], oldGrid = [[1, 0], [0, 0]],
         gridWidth = 2, gridHeight = 2 \<rparr>"
  by (simp add: update_def update_outer.simps update_inner.simps update_cell_def
      neighbourOffsets_def verifyCoordBounds_def readGrid_def writeGrid_def grid_get_def
      grid_set_def to_short_def c_rem_def)

subsubsection \<open>The loops of randomInitialization\<close>

lemma well_formed_grids_update:
  "well_formed s \<Longrightarrow>
     well_formed (s\<lparr>newGrid := (newGrid s)[x := (newGrid s ! x)[y := v]],
                    oldGrid := (oldGrid s)[x' := (oldGrid s ! x')[y' := v']]\<rparr>)"
  by (simp add: well_formed_def grid_dims_update)

lemma randomInitialization_cell_wf:
  assumes wf: "well_formed s" and i: "0 \<le> i" "i < gridWidth s" and j: "0 \<le> j" "j < gridHeight s"
  shows "randomInitialization_cell gen i j (k, s) =
     Inr (Suc k, s\<lparr>newGrid := (newGrid s)[nat i := (newGrid s ! nat i)[nat j := random_cell gen k]],
                    oldGrid := (oldGrid s)[nat i := (oldGrid s ! nat i)[nat j := random_cell gen k]]\<rparr>)"
proof -
  from wf have gn: "grid_dims (newGrid s) (gridWidth s) (gridHeight s)"
    and go: "grid_dims (oldGrid s) (gridWidth s) (gridHeight s)"
    by (simp_all add: well_formed_def)
  show ?thesis
    by (simp add: randomInitialization_cell_def Let_def random_cell_def
        grid_set_inside [OF gn i j] grid_set_inside [OF go i j])
qed

lemma randomInitialization_inner_wf:
  "well_formed s \<Longrightarrow> 0 \<le> i \<Longrightarrow> i < gridWidth s \<Longrightarrow> 0 \<le> j \<Longrightarrow>
     \<exists>s'. randomInitialization_inner gen i j (k, s) = Inr (k + (nat (gridHeight s) - nat j), s') \<and>
          well_formed s' \<and> gridWidth s' = gridWidth s \<and> gridHeight s' = gridHeight s \<and>
          (\<forall>x y. x < nat (gridWidth s) \<longrightarrow> y < nat (gridHeight s) \<longrightarrow>
             newGrid s' ! x ! y =
               (if x = nat i \<and> nat j \<le> y then random_cell gen (k + (y - nat j))
                else newGrid s ! x ! y) \<and>
             oldGrid s' ! x ! y =
               (if x = nat i \<and> nat j \<le> y then random_cell gen (k + (y - nat j))
                else oldGrid s ! x ! y))"
proof (induction gen i j "(k, s)" arbitrary: k s rule: randomInitialization_inner.induct)
  case (1 gen i j k s)
  show ?case
  proof (cases "j < gridHeight s")
    case False
    then have z: "nat (gridHeight s) - nat j = 0" by simp
    have u: "randomInitialization_inner gen i j (k, s) = Inr (k + (nat (gridHeight s) - nat j), s)"
      unfolding z using False by (subst randomInitialization_inner.simps) simp
    have "newGrid s ! x ! y =
               (if x = nat i \<and> nat j \<le> y then random_cell gen (k + (y - nat j))
                else newGrid s ! x ! y) \<and>
          oldGrid s ! x ! y =
               (if x = nat i \<and> nat j \<le> y then random_cell gen (k + (y - nat j))
                else oldGrid s ! x ! y)"
      if "y < nat (gridHeight s)" for x y
    proof -
      from that False have "\<not> nat j \<le> y" by linarith
      then show ?thesis by simp
    qed
    with u "1.prems"(1) show ?thesis
      by (intro exI [of _ s]) simp
  next
    case True
    define v where "v = random_cell gen k"
    define t where "t = s\<lparr>newGrid := (newGrid s)[nat i := (newGrid s ! nat i)[nat j := v]],
                    oldGrid := (oldGrid s)[nat i := (oldGrid s ! nat i)[nat j := v]]\<rparr>"
    have c: "randomInitialization_cell gen i j (k, s) = Inr (Suc k, t)"
      unfolding t_def v_def using "1.prems" True by (intro randomInitialization_cell_wf) simp_all
    have t: "well_formed t" "gridWidth t = gridWidth s" "gridHeight t = gridHeight s"
      using "1.prems"(1) by (simp_all add: t_def well_formed_grids_update)
    have "\<exists>s'. randomInitialization_inner gen i (j + 1) (Suc k, t) =
            Inr (Suc k + (nat (gridHeight t) - nat (j + 1)), s') \<and>
          well_formed s' \<and> gridWidth s' = gridWidth t \<and> gridHeight s' = gridHeight t \<and>
          (\<forall>x y. x < nat (gridWidth t) \<longrightarrow> y < nat (gridHeight t) \<longrightarrow>
             newGrid s' ! x ! y =
               (if x = nat i \<and> nat (j + 1) \<le> y then random_cell gen (Suc k + (y - nat (j + 1)))
                else newGrid t ! x ! y) \<and>
             oldGrid s' ! x ! y =
               (if x = nat i \<and> nat (j + 1) \<le> y then random_cell gen (Suc k + (y - nat (j + 1)))
                else oldGrid t ! x ! y))"
      by (rule "1.hyps" [OF _ c t(1)]) (use "1.prems" True t in simp_all)
    then obtain s' where
      r: "randomInitialization_inner gen i (j + 1) (Suc k, t) =
            Inr (Suc k + (nat (gridHeight s) - nat (j + 1)), s')"
      and s': "well_formed s'" "gridWidth s' = gridWidth s" "gridHeight s' = gridHeight s"
      and cells: "\<And>x y. x < nat (gridWidth s) \<Longrightarrow> y < nat (gridHeight s) \<Longrightarrow>
             newGrid s' ! x ! y =
               (if x = nat i \<and> nat (j + 1) \<le> y then random_cell gen (Suc k + (y - nat (j + 1)))
                else newGrid t ! x ! y) \<and>
             oldGrid s' ! x ! y =
               (if x = nat i \<and> nat (j + 1) \<le> y then random_cell gen (Suc k + (y - nat (j + 1)))
                else oldGrid t ! x ! y)"
      unfolding t(2-3) by blast
    have j1: "nat (j + 1) = Suc (nat j)" using "1.prems" by simp
    have cnt: "Suc k + (nat (gridHeight s) - nat (j + 1)) = k + (nat (gridHeight s) - nat j)"
      using True "1.prems" by simp
    have u: "randomInitialization_inner gen i j (k, s) = Inr (k + (nat (gridHeight s) - nat j), s')"
      using True c r unfolding cnt by (subst randomInitialization_inner.simps) simp
    from "1.prems"(1) have gn: "grid_dims (newGrid s) (gridWidth s) (gridHeight s)"
      and go: "grid_dims (oldGrid s) (gridWidth s) (gridHeight s)"
      by (simp_all add: well_formed_def)
    have final: "newGrid s' ! x ! y =
               (if x = nat i \<and> nat j \<le> y then random_cell gen (k + (y - nat j))
                else newGrid s ! x ! y) \<and>
             oldGrid s' ! x ! y =
               (if x = nat i \<and> nat j \<le> y then random_cell gen (k + (y - nat j))
                else oldGrid s ! x ! y)"
      if xy: "x < nat (gridWidth s)" "y < nat (gridHeight s)" for x y
    proof -
      have ij: "nat i < nat (gridWidth s)" "nat j < nat (gridHeight s)"
        using "1.prems" True by simp_all
      have nt: "newGrid t ! x ! y = (if x = nat i \<and> y = nat j then v else newGrid s ! x ! y)"
        unfolding t_def by (simp add: grid_update_nth [OF gn ij xy])
      have ot: "oldGrid t ! x ! y = (if x = nat i \<and> y = nat j then v else oldGrid s ! x ! y)"
        unfolding t_def by (simp add: grid_update_nth [OF go ij xy])
      show ?thesis
      proof (cases "x = nat i \<and> nat j \<le> y")
        case inside: True
        show ?thesis
        proof (cases "y = nat j")
          case True
          then have e: "k + (y - nat j) = k" by simp
          from True have n1: "\<not> (x = nat i \<and> Suc (nat j) \<le> y)" by simp
          from inside True have p2: "x = nat i \<and> y = nat j" by simp
          show ?thesis
            unfolding cells [OF xy, THEN conjunct1] cells [OF xy, THEN conjunct2] j1
              if_not_P [OF n1] nt ot if_P [OF p2] if_P [OF inside] e v_def by simp
        next
          case False
          with inside have p1: "x = nat i \<and> Suc (nat j) \<le> y" by simp
          then have e: "Suc k + (y - Suc (nat j)) = k + (y - nat j)" by linarith
          show ?thesis
            unfolding cells [OF xy, THEN conjunct1] cells [OF xy, THEN conjunct2] j1
              if_P [OF p1] if_P [OF inside] e by simp
        qed
      next
        case False
        then have n1: "\<not> (x = nat i \<and> Suc (nat j) \<le> y)"
          and n2: "\<not> (x = nat i \<and> y = nat j)" by auto
        show ?thesis
          unfolding cells [OF xy, THEN conjunct1] cells [OF xy, THEN conjunct2] j1
            if_not_P [OF n1] nt ot if_not_P [OF n2] if_not_P [OF False] by simp
      qed
    qed
    show ?thesis
      by (intro exI [of _ s'] conjI allI impI)
         (fact u s' | rule final [THEN conjunct1] final [THEN conjunct2], assumption+)+
  qed
qed


lemma randomInitialization_outer_wf:
  "well_formed s \<Longrightarrow> 0 \<le> i \<Longrightarrow>
     \<exists>s'. randomInitialization_outer gen i (k, s) =
            Inr (k + (nat (gridWidth s) - nat i) * nat (gridHeight s), s') \<and>
          well_formed s' \<and> gridWidth s' = gridWidth s \<and> gridHeight s' = gridHeight s \<and>
          (\<forall>x y. x < nat (gridWidth s) \<longrightarrow> y < nat (gridHeight s) \<longrightarrow>
             newGrid s' ! x ! y =
               (if nat i \<le> x then random_cell gen (k + (x - nat i) * nat (gridHeight s) + y)
                else newGrid s ! x ! y) \<and>
             oldGrid s' ! x ! y =
               (if nat i \<le> x then random_cell gen (k + (x - nat i) * nat (gridHeight s) + y)
                else oldGrid s ! x ! y))"
proof (induction gen i "(k, s)" arbitrary: k s rule: randomInitialization_outer.induct)
  case (1 gen i k s)
  let ?H = "nat (gridHeight s)"
  show ?case
  proof (cases "i < gridWidth s")
    case False
    then have z: "nat (gridWidth s) - nat i = 0" by simp
    have u: "randomInitialization_outer gen i (k, s) =
        Inr (k + (nat (gridWidth s) - nat i) * ?H, s)"
      unfolding z using False by (subst randomInitialization_outer.simps) simp
    have "newGrid s ! x ! y =
               (if nat i \<le> x then random_cell gen (k + (x - nat i) * ?H + y)
                else newGrid s ! x ! y) \<and>
          oldGrid s ! x ! y =
               (if nat i \<le> x then random_cell gen (k + (x - nat i) * ?H + y)
                else oldGrid s ! x ! y)"
      if "x < nat (gridWidth s)" for x y
    proof -
      from that False have "\<not> nat i \<le> x" by linarith
      then show ?thesis by simp
    qed
    with u "1.prems"(1) show ?thesis
      by (intro exI [of _ s]) simp
  next
    case True
    from randomInitialization_inner_wf [OF "1.prems"(1) "1.prems"(2) True, of 0 gen k]
    obtain t where
      c: "randomInitialization_inner gen i 0 (k, s) = Inr (k + ?H, t)"
      and t: "well_formed t" "gridWidth t = gridWidth s" "gridHeight t = gridHeight s"
      and row: "\<And>x y. x < nat (gridWidth s) \<Longrightarrow> y < ?H \<Longrightarrow>
             newGrid t ! x ! y =
               (if x = nat i then random_cell gen (k + y) else newGrid s ! x ! y) \<and>
             oldGrid t ! x ! y =
               (if x = nat i then random_cell gen (k + y) else oldGrid s ! x ! y)"
      by auto
    have "\<exists>s'. randomInitialization_outer gen (i + 1) (k + ?H, t) =
            Inr (k + ?H + (nat (gridWidth t) - nat (i + 1)) * nat (gridHeight t), s') \<and>
          well_formed s' \<and> gridWidth s' = gridWidth t \<and> gridHeight s' = gridHeight t \<and>
          (\<forall>x y. x < nat (gridWidth t) \<longrightarrow> y < nat (gridHeight t) \<longrightarrow>
             newGrid s' ! x ! y =
               (if nat (i + 1) \<le> x
                then random_cell gen (k + ?H + (x - nat (i + 1)) * nat (gridHeight t) + y)
                else newGrid t ! x ! y) \<and>
             oldGrid s' ! x ! y =
               (if nat (i + 1) \<le> x
                then random_cell gen (k + ?H + (x - nat (i + 1)) * nat (gridHeight t) + y)
                else oldGrid t ! x ! y))"
      by (rule "1.hyps" [OF _ c t(1)]) (use "1.prems" True in simp_all)
    then obtain s' where
      r: "randomInitialization_outer gen (i + 1) (k + ?H, t) =
            Inr (k + ?H + (nat (gridWidth s) - nat (i + 1)) * ?H, s')"
      and s': "well_formed s'" "gridWidth s' = gridWidth s" "gridHeight s' = gridHeight s"
      and cells: "\<And>x y. x < nat (gridWidth s) \<Longrightarrow> y < ?H \<Longrightarrow>
             newGrid s' ! x ! y =
               (if nat (i + 1) \<le> x
                then random_cell gen (k + ?H + (x - nat (i + 1)) * ?H + y)
                else newGrid t ! x ! y) \<and>
             oldGrid s' ! x ! y =
               (if nat (i + 1) \<le> x
                then random_cell gen (k + ?H + (x - nat (i + 1)) * ?H + y)
                else oldGrid t ! x ! y)"
      unfolding t(2-3) by blast
    have i1: "nat (i + 1) = Suc (nat i)" using "1.prems" by simp
    have "nat (gridWidth s) - nat i = Suc (nat (gridWidth s) - Suc (nat i))"
      using True "1.prems" by simp
    then have cnt: "k + ?H + (nat (gridWidth s) - Suc (nat i)) * ?H =
        k + (nat (gridWidth s) - nat i) * ?H"
      by simp
    have u: "randomInitialization_outer gen i (k, s) =
        Inr (k + (nat (gridWidth s) - nat i) * ?H, s')"
      using True c r unfolding i1 cnt by (subst randomInitialization_outer.simps) simp
    have final: "newGrid s' ! x ! y =
               (if nat i \<le> x then random_cell gen (k + (x - nat i) * ?H + y)
                else newGrid s ! x ! y) \<and>
             oldGrid s' ! x ! y =
               (if nat i \<le> x then random_cell gen (k + (x - nat i) * ?H + y)
                else oldGrid s ! x ! y)"
      if xy: "x < nat (gridWidth s)" "y < ?H" for x y
    proof (cases "nat i \<le> x")
      case inside: True
      show ?thesis
      proof (cases "x = nat i")
        case True
        then have e: "k + (x - nat i) * ?H + y = k + y" by simp
        from True have n1: "\<not> Suc (nat i) \<le> x" by simp
        show ?thesis
          unfolding cells [OF xy, THEN conjunct1] cells [OF xy, THEN conjunct2] i1
            if_not_P [OF n1] row [OF xy, THEN conjunct1] row [OF xy, THEN conjunct2]
            if_P [OF True] if_P [OF inside] e by simp
      next
        case False
        with inside have p1: "Suc (nat i) \<le> x" by simp
        then have "x - nat i = Suc (x - Suc (nat i))" by simp
        then have e: "k + ?H + (x - Suc (nat i)) * ?H + y = k + (x - nat i) * ?H + y"
          by simp
        show ?thesis
          unfolding cells [OF xy, THEN conjunct1] cells [OF xy, THEN conjunct2] i1
            if_P [OF p1] if_P [OF inside] e by simp
      qed
    next
      case False
      then have n1: "\<not> Suc (nat i) \<le> x" and n2: "x \<noteq> nat i" by auto
      show ?thesis
        unfolding cells [OF xy, THEN conjunct1] cells [OF xy, THEN conjunct2] i1
          if_not_P [OF n1] row [OF xy, THEN conjunct1] row [OF xy, THEN conjunct2]
          if_not_P [OF n2] if_not_P [OF False] by simp
    qed
    show ?thesis
      by (intro exI [of _ s'] conjI allI impI)
         (fact u s' | rule final [THEN conjunct1] final [THEN conjunct2], assumption+)+
  qed
qed

lemma grid_eqI:
  assumes "grid_dims g w h" "grid_dims g' w h"
    and "\<And>x y. x < nat w \<Longrightarrow> y < nat h \<Longrightarrow> g ! x ! y = g' ! x ! y"
  shows "g = g'"
proof (rule nth_equalityI)
  show "length g = length g'" using assms(1,2) by (simp add: grid_dims_def)
next
  fix x assume "x < length g"
  then have x: "x < nat w" using assms(1) by (simp add: grid_dims_def)
  show "g ! x = g' ! x"
  proof (rule nth_equalityI)
    show "length (g ! x) = length (g' ! x)"
      using grid_dims_nth [OF assms(1) x] grid_dims_nth [OF assms(2) x] by simp
  next
    fix y assume "y < length (g ! x)"
    then have "y < nat h" using grid_dims_nth [OF assms(1) x] by simp
    with x show "g ! x ! y = g' ! x ! y" by (rule assms(3))
  qed
qed

lemma grid_dims_random_grid: "grid_dims (random_grid gen w h) w h"
  by (simp add: grid_dims_def random_grid_def list_all_length)

lemma random_grid_nth:
  "x < nat w \<Longrightarrow> y < nat h \<Longrightarrow> random_grid gen w h ! x ! y = random_cell gen (x * nat h + y)"
  by (simp add: random_grid_def)

lemma randomInitialization_wf:
  assumes wf: "well_formed s" and sp: "0 \<le> sparseness"
  shows "randomInitialization std_gen sparseness s =
     Inr (s\<lparr>newGrid := random_grid (std_gen sparseness) (gridWidth s) (gridHeight s),
            oldGrid := random_grid (std_gen sparseness) (gridWidth s) (gridHeight s)\<rparr>)"
proof -
  let ?R = "random_grid (std_gen sparseness) (gridWidth s) (gridHeight s)"
  from randomInitialization_outer_wf [OF wf, of 0 "std_gen sparseness" 0] obtain k' s' where
    u: "randomInitialization_outer (std_gen sparseness) 0 (0, s) = Inr (k', s')"
    and s': "well_formed s'" "gridWidth s' = gridWidth s" "gridHeight s' = gridHeight s"
    and cells: "\<And>x y. x < nat (gridWidth s) \<Longrightarrow> y < nat (gridHeight s) \<Longrightarrow>
        newGrid s' ! x ! y = random_cell (std_gen sparseness) (x * nat (gridHeight s) + y) \<and>
        oldGrid s' ! x ! y = random_cell (std_gen sparseness) (x * nat (gridHeight s) + y)"
    by auto
  from s' have gn: "grid_dims (newGrid s') (gridWidth s) (gridHeight s)"
    and go: "grid_dims (oldGrid s') (gridWidth s) (gridHeight s)"
    and co: "coords s' = coords s"
    using wf by (simp_all add: well_formed_def)
  have n: "newGrid s' = ?R"
    by (rule grid_eqI [OF gn grid_dims_random_grid]) (simp add: cells random_grid_nth)
  have o: "oldGrid s' = ?R"
    by (rule grid_eqI [OF go grid_dims_random_grid]) (simp add: cells random_grid_nth)
  have "s' = s\<lparr>newGrid := ?R, oldGrid := ?R\<rparr>"
    using n o co s'(2,3) by simp
  with u sp show ?thesis by (simp add: randomInitialization_def)
qed

subsubsection \<open>Invariants of update\<close>

lemma list_all_update: "list_all P xs \<Longrightarrow> P v \<Longrightarrow> list_all P (xs[y := v])"
  using set_update_subset_insert [of xs y v] by (auto simp: list_all_iff)

lemma binary_grid_update:
  assumes "binary_grid g" "v = 0 \<or> v = 1"
  shows "binary_grid (g[x := (g ! x)[y := v]])"
proof (cases "x < length g")
  case True
  from assms(1) have a: "list_all (list_all (\<lambda>c. c = 0 \<or> c = 1)) g"
    by (simp add: binary_grid_def)
  with True have "list_all (\<lambda>c. c = 0 \<or> c = 1) (g ! x)"
    by (simp add: list_all_length)
  then have b: "list_all (\<lambda>c. c = 0 \<or> c = 1) ((g ! x)[y := v])"
    using assms(2) by (rule list_all_update)
  show ?thesis
    unfolding binary_grid_def by (rule list_all_update [OF a b])
next
  case False
  then have "g[x := (g ! x)[y := v]] = g" by (intro list_update_beyond) simp
  with assms(1) show ?thesis by simp
qed

lemma writeGrid_newGrid_invariant:
  assumes "\<And>g x y. P g \<Longrightarrow> P (g[x := (g ! x)[y := v]])"
  shows "writeGrid s cc v = Inr s' \<Longrightarrow> P (newGrid s) \<Longrightarrow> P (newGrid s')"
  by (auto simp: writeGrid_def grid_set_def split: sum.splits if_splits intro: assms)

lemma update_cell_newGrid_invariant:
  assumes "\<And>g x y v. P g \<Longrightarrow> v = 0 \<or> v = 1 \<Longrightarrow> P (g[x := (g ! x)[y := v]])"
  shows "update_cell i j s = Inr s' \<Longrightarrow> P (newGrid s) \<Longrightarrow> P (newGrid s')"
  unfolding update_cell_def Let_def
  by (auto split: sum.splits if_splits
      elim!: writeGrid_newGrid_invariant [where P = P, rotated] intro: assms)

lemma update_inner_newGrid_invariant:
  assumes "\<And>g x y v. P g \<Longrightarrow> v = 0 \<or> v = 1 \<Longrightarrow> P (g[x := (g ! x)[y := v]])"
  shows "update_inner i j s = Inr s' \<Longrightarrow> P (newGrid s) \<Longrightarrow> P (newGrid s')"
proof (induction i j s rule: update_inner.induct)
  case (1 i j s)
  show ?case
  proof (cases "j < gridHeight s")
    case True
    with "1.prems" obtain t where t: "update_cell i j s = Inr t"
      and r: "update_inner i (j + 1) t = Inr s'"
      by (subst (asm) update_inner.simps) (auto split: sum.splits)
    from update_cell_newGrid_invariant [of P, OF assms t "1.prems"(2)]
    have "P (newGrid t)" by simp
    with "1.IH" [OF True t r] show ?thesis by simp
  next
    case False
    with "1.prems" show ?thesis by (subst (asm) update_inner.simps) simp
  qed
qed

lemma update_outer_newGrid_invariant:
  assumes "\<And>g x y v. P g \<Longrightarrow> v = 0 \<or> v = 1 \<Longrightarrow> P (g[x := (g ! x)[y := v]])"
  shows "update_outer i s = Inr s' \<Longrightarrow> P (newGrid s) \<Longrightarrow> P (newGrid s')"
proof (induction i s rule: update_outer.induct)
  case (1 i s)
  show ?case
  proof (cases "i < gridWidth s")
    case True
    with "1.prems" obtain t where t: "update_inner i 0 s = Inr t"
      and r: "update_outer (i + 1) t = Inr s'"
      by (subst (asm) update_outer.simps) (auto split: sum.splits)
    from update_inner_newGrid_invariant [of P, OF assms t "1.prems"(2)]
    have "P (newGrid t)" by simp
    with "1.IH" [OF True t r] show ?thesis by simp
  next
    case False
    with "1.prems" show ?thesis by (subst (asm) update_outer.simps) simp
  qed
qed

lemma update_fields:
  assumes "update s = Inr s'"
  shows "gridWidth s' = gridWidth s" "gridHeight s' = gridHeight s" "coords s' = coords s"
    "oldGrid s' = newGrid s"
  using update_outer_dims [OF assms [unfolded update_def]] by simp_all

lemma update_newGrid_invariant:
  assumes "\<And>g x y v. P g \<Longrightarrow> v = 0 \<or> v = 1 \<Longrightarrow> P (g[x := (g ! x)[y := v]])"
    and "update s = Inr s'" and "P (oldGrid s)"
  shows "P (newGrid s')"
  using update_outer_newGrid_invariant [of P, OF assms(1) assms(2) [unfolded update_def]] assms(3)
  by simp

lemma update_well_formed:
  assumes "update s = Inr s'" "well_formed s"
  shows "well_formed s'"
proof -
  have "grid_dims (newGrid s') (gridWidth s) (gridHeight s)"
    by (rule update_newGrid_invariant [where P = "\<lambda>g. grid_dims g (gridWidth s) (gridHeight s)",
          OF _ assms(1)])
       (use assms(2) in \<open>simp_all add: grid_dims_update well_formed_def\<close>)
  with assms(2) update_fields [OF assms(1)] show ?thesis
    by (simp add: well_formed_def)
qed

lemma update_binary:
  assumes "update s = Inr s'" "binary_grid (newGrid s)" "binary_grid (oldGrid s)"
  shows "binary_grid (newGrid s') \<and> binary_grid (oldGrid s')"
proof -
  have "binary_grid (newGrid s')"
    by (rule update_newGrid_invariant [where P = binary_grid, OF _ assms(1)])
       (use assms(3) in \<open>simp_all add: binary_grid_update\<close>)
  with assms(2) update_fields [OF assms(1)] show ?thesis by simp
qed

lemma updates_well_formed:
  "updates n s = Inr s' \<Longrightarrow> well_formed s \<Longrightarrow>
     well_formed s' \<and> gridWidth s' = gridWidth s \<and> gridHeight s' = gridHeight s"
proof (induction n arbitrary: s)
  case 0
  then show ?case by simp
next
  case (Suc n)
  from Suc.prems(1) obtain t where t: "update s = Inr t" and r: "updates n t = Inr s'"
    by (auto split: sum.splits)
  from Suc.IH [OF r update_well_formed [OF t Suc.prems(2)]] update_fields [OF t]
  show ?case by simp
qed

lemma updates_steppable:
  "steppable s \<Longrightarrow> \<exists>s'. updates n s = Inr s' \<and> steppable s'"
proof (induction n arbitrary: s)
  case 0
  then show ?case by simp
next
  case (Suc n)
  from update_steppable [OF Suc.prems] obtain t where t: "update s = Inr t" "steppable t"
    by blast
  from Suc.IH [OF t(2)] t(1) show ?case by simp
qed

lemma binary_random_grid: "binary_grid (random_grid gen w h)"
  by (simp add: binary_grid_def random_grid_def list_all_length random_cell_def)

lemma Conway_constructor_well_formed:
  "Conway_constructor w h = Inr s \<Longrightarrow> well_formed s \<and> gridWidth s = w \<and> gridHeight s = h"
  by (auto simp: Conway_constructor_def well_formed_def grid_dims_replicate split: if_splits)

lemma random_cell_in_range:
  assumes "0 \<le> gen k" "gen k \<le> sp" "sp \<le> 32767"
  shows "random_cell gen k = (if gen k = 0 then 1 else 0)"
proof -
  have "to_short (gen k) = gen k" using assms by (intro to_short_id) linarith+
  then show ?thesis by (simp add: random_cell_def)
qed

lemma randomInitialization_same_dims:
  assumes "well_formed s" "well_formed t" "gridWidth t = gridWidth s" "gridHeight t = gridHeight s"
    and "0 \<le> sparseness"
  shows "randomInitialization std_gen sparseness t = randomInitialization std_gen sparseness s"
proof -
  from assms(1,2) have "coords t = coords s" by (simp add: well_formed_def)
  with assms(3,4) have "t\<lparr>newGrid := g, oldGrid := g\<rparr> = s\<lparr>newGrid := g, oldGrid := g\<rparr>" for g
    by (cases s, cases t) simp
  then show ?thesis
    unfolding randomInitialization_wf [OF assms(1,5)] randomInitialization_wf [OF assms(2,5)]
    by (simp add: assms(3,4))
qed

lemma binary_grid_cells:
  assumes "grid_dims g w h"
    and "\<And>x y. x < nat w \<Longrightarrow> y < nat h \<Longrightarrow> g ! x ! y = 0 \<or> g ! x ! y = 1"
  shows "binary_grid g"
  using assms by (simp add: binary_grid_def grid_dims_def list_all_length)

lemma next_cell_binary: "next_cell s i j = 0 \<or> next_cell s i j = 1"
  by (simp add: next_cell_def transition_def)

subsubsection \<open>The block\<close>

lemma grid_dims_block_grid: "grid_dims (block_grid w h a b) w h"
  by (simp add: grid_dims_def block_grid_def list_all_length)

lemma block_grid_nth:
  "x < nat w \<Longrightarrow> y < nat h \<Longrightarrow> block_grid w h a b ! x ! y = block_cell a b (int x) (int y)"
  by (simp add: block_grid_def)

lemma grid_get_block_grid:
  "grid_get (block_grid w h a b) x y =
     (if 0 \<le> x \<and> x < w \<and> 0 \<le> y \<and> y < h then Inr (block_cell a b x y) else Inl OutOfBounds)"
proof (cases "0 \<le> x \<and> x < w \<and> 0 \<le> y \<and> y < h")
  case True
  then have "grid_get (block_grid w h a b) x y = Inr (block_grid w h a b ! nat x ! nat y)"
    by (intro grid_get_inside [OF grid_dims_block_grid]) simp_all
  with True show ?thesis by (simp add: block_grid_nth)
next
  case False
  have "length (block_grid w h a b) = nat w" by (simp add: block_grid_def)
  moreover have "length (block_grid w h a b ! nat x) = nat h" if "nat x < nat w"
    using that by (rule grid_dims_nth [OF grid_dims_block_grid])
  ultimately show ?thesis using False by (auto simp: grid_get_def)
qed

lemma steppable_block_engine:
  "2 \<le> w \<Longrightarrow> w \<le> 32767 \<Longrightarrow> 2 \<le> h \<Longrightarrow> h \<le> 32767 \<Longrightarrow> steppable (block_engine w h a b)"
  by (simp add: steppable_def well_formed_def block_engine_def grid_dims_block_grid)

lemma block_count:
  fixes p q :: "int \<Rightarrow> bool"
  assumes "p 0 \<Longrightarrow> p (- 1) \<noteq> p 1" "q 0 \<Longrightarrow> q (- 1) \<noteq> q 1"
  shows "transition (if p 0 \<and> q 0 then 1 else 0)
           (int (length (filter (\<lambda>cc. p (fst cc) \<and> q (snd cc)) neighbourOffsets))) =
         (if p 0 \<and> q 0 then 1 else 0)"
  using assms unfolding neighbourOffsets_def transition_def
  by (cases "p 0"; cases "p (- 1)"; cases "p 1"; cases "q 0"; cases "q (- 1)"; cases "q 1";
      simp)

lemma block_neighbour_column:
  assumes "1 \<le> a" "a + 2 < d" and "i = a \<or> i = a + 1"
  shows "(wrap_component d (i + (- 1)) = a \<or> wrap_component d (i + (- 1)) = a + 1) \<noteq>
         (wrap_component d (i + 1) = a \<or> wrap_component d (i + 1) = a + 1)"
  using assms by (auto simp: wrap_component_def)


lemma wrap_component_inside: "0 \<le> i \<Longrightarrow> i < d \<Longrightarrow> wrap_component d (i + 0) = i"
  by (simp add: wrap_component_def)

lemma next_cell_block:
  assumes w: "w \<le> 32767" and h: "h \<le> 32767"
    and a: "1 \<le> a" "a + 2 < w" and b: "1 \<le> b" "b + 2 < h"
    and i: "0 \<le> i" "i < w" and j: "0 \<le> j" "j < h"
  shows "next_cell (block_engine w h a b) i j = block_cell a b i j"
proof -
  let ?s = "block_engine w h a b"
  define p where "p d = (wrap_component w (i + d) = a \<or> wrap_component w (i + d) = a + 1)" for d
  define q where "q d = (wrap_component h (j + d) = b \<or> wrap_component h (j + d) = b + 1)" for d
  from a b have w2: "2 \<le> w" and h2: "2 \<le> h" by simp_all
  have la: "live_at ?s i j cc = (p (fst cc) \<and> q (snd cc))" if "cc \<in> set neighbourOffsets" for cc
  proof -
    from that have u: "- 1 \<le> fst cc" "fst cc \<le> 1" "- 1 \<le> snd cc" "snd cc \<le> 1"
      by (auto simp: neighbourOffsets_def)
    let ?x = "wrap_component w (i + fst cc)" and ?y = "wrap_component h (j + snd cc)"
    from wrap_component_neighbour [OF w2 i u(1,2)] have x: "0 \<le> ?x" "?x < w" by simp_all
    from wrap_component_neighbour [OF h2 j u(3,4)] have y: "0 \<le> ?y" "?y < h" by simp_all
    have "block_grid w h a b ! nat ?x ! nat ?y = block_cell a b (int (nat ?x)) (int (nat ?y))"
      using x y by (intro block_grid_nth) simp_all
    then have "block_grid w h a b ! nat ?x ! nat ?y = block_cell a b ?x ?y"
      using x y by simp
    then show ?thesis
      by (simp add: live_at_def block_engine_def block_cell_def p_def q_def)
  qed
  have f: "filter (live_at ?s i j) neighbourOffsets =
      filter (\<lambda>cc. p (fst cc) \<and> q (snd cc)) neighbourOffsets"
    by (rule filter_cong) (simp_all add: la)
  have p0: "p 0 = (i = a \<or> i = a + 1)"
    unfolding p_def wrap_component_inside [OF i] ..
  have q0: "q 0 = (j = b \<or> j = b + 1)"
    unfolding q_def wrap_component_inside [OF j] ..
  have "block_grid w h a b ! nat i ! nat j = block_cell a b (int (nat i)) (int (nat j))"
    using i j by (intro block_grid_nth) simp_all
  then have c: "oldGrid ?s ! nat i ! nat j = (if p 0 \<and> q 0 then 1 else 0)"
    using i j by (simp add: block_engine_def block_cell_def p0 q0)
  have k1: "p (- 1) \<noteq> p 1" if "p 0"
  proof -
    from that have "i = a \<or> i = a + 1" unfolding p0 .
    from block_neighbour_column [OF a this] show ?thesis unfolding p_def .
  qed
  have k2: "q (- 1) \<noteq> q 1" if "q 0"
  proof -
    from that have "j = b \<or> j = b + 1" unfolding q0 .
    from block_neighbour_column [OF b this] show ?thesis unfolding q_def .
  qed
  have "next_cell ?s i j = (if p 0 \<and> q 0 then 1 else 0)"
    unfolding next_cell_def live_neighbours_def f c by (rule block_count [OF k1 k2])
  then show ?thesis by (simp add: block_cell_def p0 q0)
qed

lemma update_block_engine:
  assumes "w \<le> 32767" "h \<le> 32767" "1 \<le> a" "a + 2 < w" "1 \<le> b" "b + 2 < h"
  shows "update (block_engine w h a b) = Inr (block_engine w h a b)"
proof -
  let ?s = "block_engine w h a b"
  have st: "steppable ?s" using assms by (intro steppable_block_engine) simp_all
  from update_steppable [OF st] obtain s' where
    u: "update ?s = Inr s'" and s': "steppable s'" "oldGrid s' = newGrid ?s"
      "gridWidth s' = gridWidth ?s" "gridHeight s' = gridHeight ?s"
    and cells: "\<And>x y. x < nat (gridWidth ?s) \<Longrightarrow> y < nat (gridHeight ?s) \<Longrightarrow>
        newGrid s' ! x ! y = next_cell (?s\<lparr>oldGrid := newGrid ?s\<rparr>) (int x) (int y)"
    by blast
  have same: "?s\<lparr>oldGrid := newGrid ?s\<rparr> = ?s" by (simp add: block_engine_def)
  have d: "gridWidth ?s = w" "gridHeight ?s = h" by (simp_all add: block_engine_def)
  from s' have g: "grid_dims (newGrid s') w h" and co: "coords s' = neighbourOffsets"
    by (simp_all add: steppable_def well_formed_def d)
  have n: "newGrid s' = block_grid w h a b"
  proof (rule grid_eqI [OF g grid_dims_block_grid])
    fix x y assume xy: "x < nat w" "y < nat h"
    then have "newGrid s' ! x ! y = next_cell ?s (int x) (int y)"
      using cells [of x y] by (simp add: d same)
    also have "\<dots> = block_cell a b (int x) (int y)"
      using xy assms by (intro next_cell_block) simp_all
    also have "\<dots> = block_grid w h a b ! x ! y"
      using xy by (simp add: block_grid_nth)
    finally show "newGrid s' ! x ! y = block_grid w h a b ! x ! y" .
  qed
  have "s' = ?s"
    using n co s'(2-4) by (cases s') (simp add: block_engine_def)
  with u show ?thesis by simp
qed

subsubsection \<open>A step that returns has counted the neighbours of every cell\<close>

lemma update_cell_counts:
  "update_cell i j s = Inr s' \<Longrightarrow> \<exists>n. countLiveNeighbors s i j (coords s) 0 = Inr n"
  unfolding update_cell_def Let_def by (auto split: sum.splits)

lemma update_inner_counts:
  "update_inner i j s = Inr s' \<Longrightarrow> j \<le> y \<Longrightarrow> y < gridHeight s \<Longrightarrow>
     \<exists>n. countLiveNeighbors s i y (coords s) 0 = Inr n"
proof (induction i j s rule: update_inner.induct)
  case (1 i j s)
  from "1.prems" have lt: "j < gridHeight s" by simp
  with "1.prems"(1) obtain t where t: "update_cell i j s = Inr t"
    and r: "update_inner i (j + 1) t = Inr s'"
    by (subst (asm) update_inner.simps) (auto split: sum.splits)
  show ?case
  proof (cases "y = j")
    case True
    with update_cell_counts [OF t] show ?thesis by simp
  next
    case False
    with "1.prems" have "j + 1 \<le> y" by simp
    moreover from update_cell_dims [OF t] "1.prems" have "y < gridHeight t" by simp
    ultimately obtain n where "countLiveNeighbors t i y (coords t) 0 = Inr n"
      using "1.IH" [OF lt t r] by blast
    moreover have "countLiveNeighbors t i y (coords t) 0 = countLiveNeighbors s i y (coords t) 0"
      using update_cell_dims [OF t] by (intro countLiveNeighbors_frame) simp_all
    ultimately have "countLiveNeighbors s i y (coords s) 0 = Inr n"
      using update_cell_dims [OF t] by simp
    then show ?thesis ..
  qed
qed

lemma update_outer_counts:
  "update_outer i s = Inr s' \<Longrightarrow> i \<le> x \<Longrightarrow> x < gridWidth s \<Longrightarrow> 0 \<le> y \<Longrightarrow> y < gridHeight s \<Longrightarrow>
     \<exists>n. countLiveNeighbors s x y (coords s) 0 = Inr n"
proof (induction i s rule: update_outer.induct)
  case (1 i s)
  from "1.prems" have lt: "i < gridWidth s" by simp
  with "1.prems"(1) obtain t where t: "update_inner i 0 s = Inr t"
    and r: "update_outer (i + 1) t = Inr s'"
    by (subst (asm) update_outer.simps) (auto split: sum.splits)
  show ?case
  proof (cases "x = i")
    case True
    with update_inner_counts [OF t "1.prems"(4,5)] show ?thesis by simp
  next
    case False
    with "1.prems" have "i + 1 \<le> x" by simp
    moreover from update_inner_dims [OF t] "1.prems"
    have "x < gridWidth t" "y < gridHeight t" by simp_all
    ultimately obtain n where "countLiveNeighbors t x y (coords t) 0 = Inr n"
      using "1.IH" [OF lt t r] "1.prems"(4) by blast
    moreover have "countLiveNeighbors t x y (coords t) 0 = countLiveNeighbors s x y (coords t) 0"
      using update_inner_dims [OF t] by (intro countLiveNeighbors_frame) simp_all
    ultimately have "countLiveNeighbors s x y (coords s) 0 = Inr n"
      using update_inner_dims [OF t] by simp
    then show ?thesis ..
  qed
qed

lemma update_counts:
  assumes "update s = Inr s'" "0 \<le> x" "x < gridWidth s" "0 \<le> y" "y < gridHeight s"
  shows "\<exists>n. countLiveNeighbors (s\<lparr>oldGrid := newGrid s, newGrid := oldGrid s\<rparr>) x y (coords s) 0
           = Inr n"
  using update_outer_counts [OF assms(1) [unfolded update_def], of x y] assms(2-5) by simp

lemma update_fails_if_count_fails:
  assumes "countLiveNeighbors (s\<lparr>oldGrid := newGrid s, newGrid := oldGrid s\<rparr>) x y (coords s) 0
      = Inl e" "0 \<le> x" "x < gridWidth s" "0 \<le> y" "y < gridHeight s"
  shows "isl (update s)"
proof (cases "update s")
  case (Inl a)
  then show ?thesis by simp
next
  case (Inr s')
  from update_counts [OF Inr assms(2-5)] assms(1) show ?thesis by simp
qed


lemma grid_get_replicate:
  "grid_get (replicate m (replicate n c)) x y =
     (if 0 \<le> x \<and> nat x < m \<and> 0 \<le> y \<and> nat y < n then Inr c else Inl OutOfBounds)"
  by (auto simp: grid_get_def)

subsection \<open>Engines whose coordinates fit\<close>

text \<open>
  Where both dimensions lie between 2 and 32767, no coordinate leaves the range of a
  \<open>short\<close> and no normalised coordinate falls outside the grid. On such an engine one
  call of \<open>update\<close> runs to completion, and for every cell \<open>(i, j)\<close> the value it writes is
  determined by the cell's value \<open>c\<close> in the previous generation and the neighbour count
  \<open>n\<close> the code computes on the previous generation: alive (1) if the cell was alive and
  \<open>n\<close> is 2 or 3, or it was dead and \<open>n\<close> is exactly 3, and dead (0) in every other case.
\<close>

theorem update_applies_transition_rule:
  assumes "well_formed s" "2 \<le> gridWidth s" "gridWidth s \<le> 32767"
    "2 \<le> gridHeight s" "gridHeight s \<le> 32767"
  shows "\<exists>s'. update s = Inr s' \<and>
     (\<forall>i j. 0 \<le> i \<and> i < gridWidth s \<and> 0 \<le> j \<and> j < gridHeight s \<longrightarrow>
        (\<exists>c n. grid_get (newGrid s) i j = Inr c \<and>
           countLiveNeighbors (s\<lparr>oldGrid := newGrid s, newGrid := oldGrid s\<rparr>) i j (coords s) 0
             = Inr n \<and>
           grid_get (newGrid s') i j =
             Inr (if (c \<noteq> 0 \<and> (n = 2 \<or> n = 3)) \<or> (c = 0 \<and> n = 3) then 1 else 0)))"
proof -
  let ?t = "s\<lparr>oldGrid := newGrid s, newGrid := oldGrid s\<rparr>"
  from assms have st: "steppable s" by (simp add: steppable_def)
  then have stt: "steppable ?t" by (rule steppable_swap)
  from update_steppable [OF st] obtain s' where
    u: "update s = Inr s'" and s': "steppable s'"
      "gridWidth s' = gridWidth s" "gridHeight s' = gridHeight s"
    and cells: "\<And>x y. x < nat (gridWidth s) \<Longrightarrow> y < nat (gridHeight s) \<Longrightarrow>
        newGrid s' ! x ! y = next_cell (s\<lparr>oldGrid := newGrid s\<rparr>) (int x) (int y)"
    by blast
  have gs: "grid_dims (newGrid s) (gridWidth s) (gridHeight s)"
    using assms(1) by (simp add: well_formed_def)
  have gs': "grid_dims (newGrid s') (gridWidth s) (gridHeight s)"
    using s' by (simp add: steppable_def well_formed_def)
  have "\<exists>c n. grid_get (newGrid s) i j = Inr c \<and>
           countLiveNeighbors ?t i j (coords s) 0 = Inr n \<and>
           grid_get (newGrid s') i j =
             Inr (if (c \<noteq> 0 \<and> (n = 2 \<or> n = 3)) \<or> (c = 0 \<and> n = 3) then 1 else 0)"
    if ij: "0 \<le> i \<and> i < gridWidth s \<and> 0 \<le> j \<and> j < gridHeight s" for i j
  proof -
    from ij have i: "0 \<le> i" "i < gridWidth s" and j: "0 \<le> j" "j < gridHeight s" by simp_all
    have a: "grid_get (newGrid s) i j = Inr (newGrid s ! nat i ! nat j)"
      by (rule grid_get_inside [OF gs i j])
    have "countLiveNeighbors ?t i j (coords ?t) 0 = Inr (live_neighbours ?t i j)"
      using i j by (intro countLiveNeighbors_steppable [OF stt]) simp_all
    then have b: "countLiveNeighbors ?t i j (coords s) 0 = Inr (live_neighbours ?t i j)"
      by simp
    have ln: "live_neighbours (s\<lparr>oldGrid := newGrid s\<rparr>) i j = live_neighbours ?t i j"
      by (intro live_neighbours_frame) simp_all
    have "newGrid s' ! nat i ! nat j =
        next_cell (s\<lparr>oldGrid := newGrid s\<rparr>) (int (nat i)) (int (nat j))"
      using i j by (intro cells) simp_all
    then have n: "newGrid s' ! nat i ! nat j =
        transition (newGrid s ! nat i ! nat j) (live_neighbours ?t i j)"
      using i j by (simp add: next_cell_def ln)
    have c: "grid_get (newGrid s') i j =
        Inr (transition (newGrid s ! nat i ! nat j) (live_neighbours ?t i j))"
      using grid_get_inside [OF gs' i j] n by simp
    show ?thesis
      using a b c unfolding transition_def by blast
  qed
  with u show ?thesis by blast
qed

theorem update_applies_transition_rule_witness:
  "\<exists>s'. update \<lparr> coords = neighbourOffsets, newGrid = [[0, 0, 0], [0, 1, 1], [0, 1, 0]],
                 oldGrid = [[0, 0, 0], [0, 0, 0], [0, 0, 0]],
                 gridWidth = 3, gridHeight = 3 \<rparr> = Inr s' \<and>
        countLiveNeighbors
           \<lparr> coords = neighbourOffsets, newGrid = [[0, 0, 0], [0, 0, 0], [0, 0, 0]],
             oldGrid = [[0, 0, 0], [0, 1, 1], [0, 1, 0]],
             gridWidth = 3, gridHeight = 3 \<rparr> 2 2 neighbourOffsets 0 = Inr 3 \<and>
        grid_get (newGrid s') 2 2 = Inr 1"
proof -
  let ?s = "\<lparr> coords = neighbourOffsets, newGrid = [[0, 0, 0], [0, 1, 1], [0, 1, 0]],
                 oldGrid = [[0, 0, 0], [0, 0, 0], [0, 0, 0]],
                 gridWidth = 3, gridHeight = 3 \<rparr>"
  have wf: "well_formed ?s" by (simp add: well_formed_def grid_dims_def)
  have h: "2 \<le> gridWidth ?s" "gridWidth ?s \<le> 32767" "2 \<le> gridHeight ?s" "gridHeight ?s \<le> 32767"
    by simp_all
  have k: "countLiveNeighbors
           \<lparr> coords = neighbourOffsets, newGrid = [[0, 0, 0], [0, 0, 0], [0, 0, 0]],
             oldGrid = [[0, 0, 0], [0, 1, 1], [0, 1, 0]],
             gridWidth = 3, gridHeight = 3 \<rparr> 2 2 neighbourOffsets 0 = Inr 3"
    by (simp add: neighbourOffsets_def verifyCoordBounds_def readGrid_def grid_get_def
        to_short_def c_rem_def)
  have g: "grid_get (newGrid ?s) 2 2 = Inr 0" by (simp add: grid_get_def)
  from update_applies_transition_rule [OF wf h] obtain s' where
    u: "update ?s = Inr s'" and
    a: "\<forall>i j. 0 \<le> i \<and> i < gridWidth ?s \<and> 0 \<le> j \<and> j < gridHeight ?s \<longrightarrow>
        (\<exists>c n. grid_get (newGrid ?s) i j = Inr c \<and>
           countLiveNeighbors (?s\<lparr>oldGrid := newGrid ?s, newGrid := oldGrid ?s\<rparr>) i j (coords ?s) 0
             = Inr n \<and>
           grid_get (newGrid s') i j =
             Inr (if (c \<noteq> 0 \<and> (n = 2 \<or> n = 3)) \<or> (c = 0 \<and> n = 3) then 1 else 0))"
    by blast
  have "0 \<le> (2::int) \<and> 2 < gridWidth ?s \<and> 0 \<le> (2::int) \<and> 2 < gridHeight ?s" by simp
  with a obtain c n where c: "grid_get (newGrid ?s) 2 2 = Inr c"
    and n: "countLiveNeighbors (?s\<lparr>oldGrid := newGrid ?s, newGrid := oldGrid ?s\<rparr>) 2 2
        (coords ?s) 0 = Inr n"
    and r: "grid_get (newGrid s') 2 2 =
        Inr (if (c \<noteq> 0 \<and> (n = 2 \<or> n = 3)) \<or> (c = 0 \<and> n = 3) then 1 else 0)"
    by blast
  from c g have c0: "c = 0" by simp
  from n k have n3: "n = 3" by simp
  from r have "grid_get (newGrid s') 2 2 = Inr 1" unfolding c0 n3 by simp
  with u k show ?thesis by (intro exI [of _ s'] conjI)
qed

text \<open>
  On such an engine a 2 by 2 block of live cells in the interior (no block cell in the
  first or last column or row), held in both grids with only dead cells elsewhere, is a
  fixed point of \<open>update\<close>: any number of calls returns the same engine state. The
  normalisation of a coordinate -1 to dimension - 2 does not disturb it: a dead cell
  counts 0, 1, 2 or 4 live neighbours, never 3.
\<close>

theorem block_is_still_life:
  assumes "4 \<le> w" "w \<le> 32767" "4 \<le> h" "h \<le> 32767"
    and "1 \<le> a" "a + 2 < w" "1 \<le> b" "b + 2 < h"
  shows "updates n (block_engine w h a b) = Inr (block_engine w h a b)"
proof (induction n)
  case 0
  show ?case by simp
next
  case (Suc n)
  have "update (block_engine w h a b) = Inr (block_engine w h a b)"
    using assms by (intro update_block_engine)
  with Suc show ?case by simp
qed

theorem block_is_still_life_witness:
  "updates 3 \<lparr> coords = neighbourOffsets,
               newGrid = [[0, 0, 0, 0], [0, 1, 1, 0], [0, 1, 1, 0], [0, 0, 0, 0]],
               oldGrid = [[0, 0, 0, 0], [0, 1, 1, 0], [0, 1, 1, 0], [0, 0, 0, 0]],
               gridWidth = 4, gridHeight = 4 \<rparr> =
     Inr \<lparr> coords = neighbourOffsets,
               newGrid = [[0, 0, 0, 0], [0, 1, 1, 0], [0, 1, 1, 0], [0, 0, 0, 0]],
               oldGrid = [[0, 0, 0, 0], [0, 1, 1, 0], [0, 1, 1, 0], [0, 0, 0, 0]],
               gridWidth = 4, gridHeight = 4 \<rparr>"
proof -
  have "block_grid 4 4 1 1 = [[0, 0, 0, 0], [0, 1, 1, 0], [0, 1, 1, 0], [0, 0, 0, 0]]"
    by (simp add: block_grid_def block_cell_def upt_rec)
  then have e: "block_engine 4 4 1 1 =
      \<lparr> coords = neighbourOffsets,
        newGrid = [[0, 0, 0, 0], [0, 1, 1, 0], [0, 1, 1, 0], [0, 0, 0, 0]],
        oldGrid = [[0, 0, 0, 0], [0, 1, 1, 0], [0, 1, 1, 0], [0, 0, 0, 0]],
        gridWidth = 4, gridHeight = 4 \<rparr>"
    by (simp add: block_engine_def)
  from block_is_still_life [of 4 4 1 1 3] show ?thesis unfolding e by simp
qed

subsection \<open>The claims\<close>

text \<open>
  C1, as the code has it. The claim: on every constructed engine one call of \<open>update\<close>
  writes, for every cell, the value the rule gives for its previous value and its
  neighbour count. On the engine constructed with width 32768 and height 2 the neighbour
  coordinate \<open>32767 + 1\<close> of the cell (32767, 0) does not fit a \<open>short\<close>: it is stored
  as -32768, \<open>verifyCoordBounds\<close> turns it into \<open>32768 - 1 - 32768 = -1\<close>, the read at
  that index is outside the vector, and \<open>update\<close> writes no next generation. On the engine
  constructed with width 3 and height 1 the neighbour offset (0,-1) of the cell (0,0) is
  normalised to \<open>gridHeight - 1 + (-1) = -1\<close>, and the neighbour count reads outside the
  vector as well.
\<close>

theorem update_fails_outside_2_to_32767:
  "Conway_constructor 3 1 =
     Inr \<lparr> coords = neighbourOffsets, newGrid = [[0], [0], [0]], oldGrid = [[0], [0], [0]],
           gridWidth = 3, gridHeight = 1 \<rparr> \<and>
   update \<lparr> coords = neighbourOffsets, newGrid = [[0], [0], [0]], oldGrid = [[0], [0], [0]],
            gridWidth = 3, gridHeight = 1 \<rparr> = Inl OutOfBounds \<and>
   Conway_constructor 32768 2 =
     Inr \<lparr> coords = neighbourOffsets,
           newGrid = replicate (nat 32768) (replicate (nat 2) 0),
           oldGrid = replicate (nat 32768) (replicate (nat 2) 0),
           gridWidth = 32768, gridHeight = 2 \<rparr> \<and>
   isl (update \<lparr> coords = neighbourOffsets,
           newGrid = replicate (nat 32768) (replicate (nat 2) 0),
           oldGrid = replicate (nat 32768) (replicate (nat 2) 0),
           gridWidth = 32768, gridHeight = 2 \<rparr>)"
proof (intro conjI)
  show "Conway_constructor 3 1 =
     Inr \<lparr> coords = neighbourOffsets, newGrid = [[0], [0], [0]], oldGrid = [[0], [0], [0]],
           gridWidth = 3, gridHeight = 1 \<rparr>"
    by (simp add: Conway_constructor_def numeral_3_eq_3)
  show "update \<lparr> coords = neighbourOffsets, newGrid = [[0], [0], [0]], oldGrid = [[0], [0], [0]],
            gridWidth = 3, gridHeight = 1 \<rparr> = Inl OutOfBounds"
    by (simp add: verifyCoordBounds_def to_short_def c_rem_def
        neighbourOffsets_def readGrid_def grid_get_def update_def update_outer.simps
        update_inner.simps update_cell_def)
  show "Conway_constructor 32768 2 =
     Inr \<lparr> coords = neighbourOffsets,
           newGrid = replicate (nat 32768) (replicate (nat 2) 0),
           oldGrid = replicate (nat 32768) (replicate (nat 2) 0),
           gridWidth = 32768, gridHeight = 2 \<rparr>"
    by (simp add: Conway_constructor_def)
  let ?s = "\<lparr> coords = neighbourOffsets,
           newGrid = replicate (nat 32768) (replicate (nat 2) 0),
           oldGrid = replicate (nat 32768) (replicate (nat 2) 0),
           gridWidth = 32768, gridHeight = 2 \<rparr>"
  show "isl (update ?s)"
  proof (rule update_fails_if_count_fails [where x = 32767 and y = 0 and e = OutOfBounds])
    show "countLiveNeighbors (?s\<lparr>oldGrid := newGrid ?s, newGrid := oldGrid ?s\<rparr>)
        32767 0 (coords ?s) 0 = Inl OutOfBounds"
      by (simp add: neighbourOffsets_def verifyCoordBounds_def readGrid_def
          grid_get_replicate to_short_def c_rem_def)
  qed simp_all
qed

text \<open>
  C2, as the code has it. The claim: a coordinate component one step below 0 is mapped to
  dimension - 1, so that on a 3 by 3 grid the offset (-1,-1) from cell (0,0) normalises to
  (2,2). The code computes \<open>gridWidth - 1 + x\<close>, which for \<open>x = -1\<close> is dimension - 2:
  on the 3 by 3 grid the result is (1,1), and the cell (0,0) does not count a live cell at
  (2,2) among its neighbours. The branch for components at or above the dimension does wrap
  around (3 becomes 0), which is how the count of (2,2) still includes a live cell at (0,0).
\<close>

theorem verifyCoordBounds_below_zero_off_by_one:
  "verifyCoordBounds s (- 1, - 1) = Inr (to_short (gridWidth s - 2), to_short (gridHeight s - 2)) \<and>
   Conway_constructor 3 3 =
     Inr \<lparr> coords = neighbourOffsets, newGrid = [[0, 0, 0], [0, 0, 0], [0, 0, 0]],
           oldGrid = [[0, 0, 0], [0, 0, 0], [0, 0, 0]], gridWidth = 3, gridHeight = 3 \<rparr> \<and>
   verifyCoordBounds
     \<lparr> coords = neighbourOffsets, newGrid = [[0, 0, 0], [0, 0, 0], [0, 0, 0]],
       oldGrid = [[0, 0, 0], [0, 0, 0], [0, 0, 0]], gridWidth = 3, gridHeight = 3 \<rparr>
     (to_short (0 + (- 1)), to_short (0 + (- 1))) = Inr (1, 1) \<and>
   verifyCoordBounds
     \<lparr> coords = neighbourOffsets, newGrid = [[0, 0, 0], [0, 0, 0], [0, 0, 0]],
       oldGrid = [[0, 0, 0], [0, 0, 0], [0, 0, 0]], gridWidth = 3, gridHeight = 3 \<rparr>
     (to_short (2 + 1), to_short (2 + 1)) = Inr (0, 0) \<and>
   countLiveNeighbors
     \<lparr> coords = neighbourOffsets, newGrid = [[0, 0, 0], [0, 0, 0], [0, 0, 0]],
       oldGrid = [[1, 0, 0], [0, 0, 0], [0, 0, 0]], gridWidth = 3, gridHeight = 3 \<rparr>
     2 2 neighbourOffsets 0 = Inr 1 \<and>
   countLiveNeighbors
     \<lparr> coords = neighbourOffsets, newGrid = [[0, 0, 0], [0, 0, 0], [0, 0, 0]],
       oldGrid = [[0, 0, 0], [0, 0, 0], [0, 0, 1]], gridWidth = 3, gridHeight = 3 \<rparr>
     0 0 neighbourOffsets 0 = Inr 0"
  by (simp add: verifyCoordBounds_def Conway_constructor_def to_short_def c_rem_def
      neighbourOffsets_def readGrid_def grid_get_def numeral_3_eq_3)

text \<open>
  C3: during one call of \<open>update\<close> the read source \<open>oldGrid\<close> (the buffer the initial swap
  promotes, the previous \<open>newGrid\<close>) is never written. \<open>writeGrid\<close> changes \<open>newGrid\<close> and
  nothing else; \<open>readGrid\<close> and the neighbour count do not depend on the contents of
  \<open>newGrid\<close>, so no read observes a value written earlier in the same step; the body of the
  loops, each of the two loops and the whole step leave \<open>oldGrid\<close> as it was after the swap.
\<close>

theorem read_source_never_written:
  "(writeGrid s cc v = Inr s' \<longrightarrow> (\<exists>g. s' = s\<lparr>newGrid := g\<rparr>)) \<and>
   readGrid (s\<lparr>newGrid := g\<rparr>) cc = readGrid s cc \<and>
   countLiveNeighbors (s\<lparr>newGrid := g\<rparr>) i j cs n = countLiveNeighbors s i j cs n \<and>
   (update_cell i j s = Inr s' \<longrightarrow> oldGrid s' = oldGrid s) \<and>
   (update_inner i j s = Inr s' \<longrightarrow> oldGrid s' = oldGrid s) \<and>
   (update_outer i s = Inr s' \<longrightarrow> oldGrid s' = oldGrid s) \<and>
   (update s = Inr s' \<longrightarrow> oldGrid s' = newGrid s)"
proof (intro conjI impI)
  assume "writeGrid s cc v = Inr s'"
  then show "\<exists>g. s' = s\<lparr>newGrid := g\<rparr>"
    by (auto simp: writeGrid_def split: sum.splits)
next
  show "readGrid (s\<lparr>newGrid := g\<rparr>) cc = readGrid s cc"
    by (simp add: readGrid_def)
next
  show "countLiveNeighbors (s\<lparr>newGrid := g\<rparr>) i j cs n = countLiveNeighbors s i j cs n"
    by (intro countLiveNeighbors_frame) simp_all
next
  assume "update_cell i j s = Inr s'"
  then show "oldGrid s' = oldGrid s" by (simp add: update_cell_dims)
next
  assume "update_inner i j s = Inr s'"
  then show "oldGrid s' = oldGrid s" by (simp add: update_inner_dims)
next
  assume "update_outer i s = Inr s'"
  then show "oldGrid s' = oldGrid s" by (simp add: update_outer_dims)
next
  assume "update s = Inr s'"
  then have "oldGrid s' = oldGrid (s\<lparr>oldGrid := newGrid s, newGrid := oldGrid s\<rparr>)"
    unfolding update_def by (simp add: update_outer_dims)
  then show "oldGrid s' = newGrid s" by simp
qed

theorem read_source_never_written_witness:
  "update \<lparr> coords = neighbourOffsets, newGrid = [[1, 0], [0, 0]], oldGrid = [[0, 0], [0, 1]],
            gridWidth = 2, gridHeight = 2 \<rparr> =
   Inr \<lparr> coords = neighbourOffsets, newGrid = [[1, 0], [0, 0]], oldGrid = [[1, 0], [0, 0]],
         gridWidth = 2, gridHeight = 2 \<rparr> \<and>
   oldGrid \<lparr> coords = neighbourOffsets, newGrid = [[1, 0], [0, 0]], oldGrid = [[1, 0], [0, 0]],
         gridWidth = 2, gridHeight = 2 \<rparr> =
   newGrid \<lparr> coords = neighbourOffsets, newGrid = [[1, 0], [0, 0]], oldGrid = [[0, 0], [0, 1]],
            gridWidth = 2, gridHeight = 2 \<rparr>"
  using update_2x2_example
    read_source_never_written [of
      "\<lparr> coords = neighbourOffsets, newGrid = [[1, 0], [0, 0]], oldGrid = [[0, 0], [0, 1]],
            gridWidth = 2, gridHeight = 2 \<rparr>" _ _
      "\<lparr> coords = neighbourOffsets, newGrid = [[1, 0], [0, 0]], oldGrid = [[1, 0], [0, 0]],
         gridWidth = 2, gridHeight = 2 \<rparr>"]
  by simp

text \<open>
  C4, the counterexample: a width of zero is not rejected. The constructor returns an
  engine whose grids have no cells.
\<close>

theorem constructor_accepts_zero_width:
  "Conway_constructor 0 5 =
     Inr \<lparr> coords = neighbourOffsets, newGrid = [], oldGrid = [],
           gridWidth = 0, gridHeight = 5 \<rparr>"
  by (simp add: Conway_constructor_def)

text \<open>
  C4, amended: the constructor validates nothing itself. For a width and a height that are
  not negative (zero included) it succeeds, with two grids of width columns of height
  cells, all dead; a negative width or height fails only inside the allocation of the
  vectors, with the library's length error.
\<close>

theorem constructor_without_validation:
  "(0 \<le> width \<and> 0 \<le> height \<longrightarrow>
      (\<exists>s. Conway_constructor width height = Inr s \<and> well_formed s \<and>
           gridWidth s = width \<and> gridHeight s = height \<and>
           newGrid s = replicate (nat width) (replicate (nat height) 0) \<and>
           oldGrid s = replicate (nat width) (replicate (nat height) 0) \<and>
           (\<forall>i j. 0 \<le> i \<and> i < width \<and> 0 \<le> j \<and> j < height \<longrightarrow>
              grid_get (newGrid s) i j = Inr 0 \<and> grid_get (oldGrid s) i j = Inr 0))) \<and>
   (width < 0 \<or> height < 0 \<longrightarrow> Conway_constructor width height = Inl LengthError)"
  by (auto simp: Conway_constructor_def well_formed_def grid_dims_replicate grid_get_def)

theorem constructor_without_validation_witness:
  "(\<exists>s. Conway_constructor 2 3 = Inr s \<and> well_formed s \<and>
        newGrid s = [[0, 0, 0], [0, 0, 0]] \<and> oldGrid s = [[0, 0, 0], [0, 0, 0]] \<and>
        grid_get (newGrid s) 1 2 = Inr 0) \<and>
   Conway_constructor 0 0 = Inr \<lparr> coords = neighbourOffsets, newGrid = [], oldGrid = [],
           gridWidth = 0, gridHeight = 0 \<rparr> \<and>
   Conway_constructor (- 1) 3 = Inl LengthError"
  using constructor_without_validation [of 2 3] constructor_without_validation [of "- 1" 3]
    constructor_without_validation [of 0 0]
  by (auto simp: numeral_2_eq_2 numeral_3_eq_3 Conway_constructor_def)

text \<open>
  C5, as the code has it. The claim: on a 1 by 1 grid all eight neighbour offsets
  normalise to the lone cell, no read is out of bounds and a live lone cell counts 8
  neighbours. Construction does succeed, but the offset (0,-1) normalises to
  \<open>gridHeight - 1 + (-1) = -1\<close>, the read at that index is outside the vector, and neither
  the neighbour count nor \<open>update\<close> yields a result.
\<close>

theorem one_by_one_grid_reads_out_of_bounds:
  "Conway_constructor 1 1 =
     Inr \<lparr> coords = neighbourOffsets, newGrid = [[0]], oldGrid = [[0]],
           gridWidth = 1, gridHeight = 1 \<rparr> \<and>
   verifyCoordBounds
     \<lparr> coords = neighbourOffsets, newGrid = [[0]], oldGrid = [[0]],
       gridWidth = 1, gridHeight = 1 \<rparr>
     (to_short (0 + 0), to_short (0 + (- 1))) = Inr (0, - 1) \<and>
   readGrid
     \<lparr> coords = neighbourOffsets, newGrid = [[0]], oldGrid = [[0]],
       gridWidth = 1, gridHeight = 1 \<rparr> (0, - 1) = Inl OutOfBounds \<and>
   countLiveNeighbors
     \<lparr> coords = neighbourOffsets, newGrid = [[1]], oldGrid = [[1]],
       gridWidth = 1, gridHeight = 1 \<rparr> 0 0 neighbourOffsets 0 = Inl OutOfBounds \<and>
   update \<lparr> coords = neighbourOffsets, newGrid = [[1]], oldGrid = [[1]],
            gridWidth = 1, gridHeight = 1 \<rparr> = Inl OutOfBounds \<and>
   update \<lparr> coords = neighbourOffsets, newGrid = [[0]], oldGrid = [[0]],
            gridWidth = 1, gridHeight = 1 \<rparr> = Inl OutOfBounds"
  by (simp add: verifyCoordBounds_def Conway_constructor_def to_short_def c_rem_def
      neighbourOffsets_def readGrid_def grid_get_def update_def update_outer.simps
      update_inner.simps update_cell_def)

text \<open>
  C6: called on any well-formed engine, whatever its grids hold, with a sparseness of at
  least 1 (at most 32767, the parameter being a \<open>short\<close>) and a generator whose draws lie
  in \<open>[0, sparseness]\<close>, \<open>randomInitialization\<close> succeeds; every cell \<open>(i, j)\<close> of both
  grids is alive iff its draw (the draw number \<open>i * gridHeight + j\<close>) equals 0, the two grids
  are equal afterwards, and the result is the same whatever the two grids held before: no
  cell of the previous state survives.
\<close>

theorem randomInitialization_overwrites_both_grids:
  assumes "well_formed s" "1 \<le> sparseness" "sparseness \<le> 32767"
    and "\<forall>k. 0 \<le> std_gen sparseness k \<and> std_gen sparseness k \<le> sparseness"
  shows "\<exists>s'. randomInitialization std_gen sparseness s = Inr s' \<and>
      well_formed s' \<and> gridWidth s' = gridWidth s \<and> gridHeight s' = gridHeight s \<and>
      newGrid s' = oldGrid s' \<and>
      (\<forall>i j. 0 \<le> i \<and> i < gridWidth s \<and> 0 \<le> j \<and> j < gridHeight s \<longrightarrow>
         grid_get (newGrid s') i j =
           Inr (if std_gen sparseness (nat i * nat (gridHeight s) + nat j) = 0 then 1 else 0) \<and>
         grid_get (oldGrid s') i j =
           Inr (if std_gen sparseness (nat i * nat (gridHeight s) + nat j) = 0 then 1 else 0)) \<and>
      (\<forall>g1 g2. well_formed (s\<lparr>newGrid := g1, oldGrid := g2\<rparr>) \<longrightarrow>
         randomInitialization std_gen sparseness (s\<lparr>newGrid := g1, oldGrid := g2\<rparr>) = Inr s')"
proof -
  let ?R = "random_grid (std_gen sparseness) (gridWidth s) (gridHeight s)"
  let ?s' = "s\<lparr>newGrid := ?R, oldGrid := ?R\<rparr>"
  from assms(2) have sp: "0 \<le> sparseness" by simp
  have u: "randomInitialization std_gen sparseness s = Inr ?s'"
    by (rule randomInitialization_wf [OF assms(1) sp])
  have wf: "well_formed ?s'"
    using assms(1) by (simp add: well_formed_def grid_dims_random_grid)
  have cellv: "grid_get ?R i j =
      Inr (if std_gen sparseness (nat i * nat (gridHeight s) + nat j) = 0 then 1 else 0)"
    if ij: "0 \<le> i \<and> i < gridWidth s \<and> 0 \<le> j \<and> j < gridHeight s" for i j
  proof -
    from ij have i: "0 \<le> i" "i < gridWidth s" and j: "0 \<le> j" "j < gridHeight s" by simp_all
    have "grid_get ?R i j = Inr (?R ! nat i ! nat j)"
      by (rule grid_get_inside [OF grid_dims_random_grid i j])
    also have "?R ! nat i ! nat j =
        random_cell (std_gen sparseness) (nat i * nat (gridHeight s) + nat j)"
      using i j by (intro random_grid_nth) simp_all
    also have "\<dots> = (if std_gen sparseness (nat i * nat (gridHeight s) + nat j) = 0 then 1 else 0)"
      using assms(4) assms(3) by (intro random_cell_in_range [where sp = sparseness]) simp_all
    finally show ?thesis .
  qed
  have other: "randomInitialization std_gen sparseness (s\<lparr>newGrid := g1, oldGrid := g2\<rparr>) = Inr ?s'"
    if "well_formed (s\<lparr>newGrid := g1, oldGrid := g2\<rparr>)" for g1 g2
    using randomInitialization_wf [OF that sp, of std_gen] by simp
  show ?thesis
    by (intro exI [of _ ?s'] conjI allI impI)
       (fact u, fact wf, simp, simp, simp, simp add: cellv, simp add: cellv, rule other)
qed

theorem randomInitialization_overwrites_both_grids_witness:
  "randomInitialization (\<lambda>sp k. int (k mod 2)) 1
       \<lparr> coords = neighbourOffsets, newGrid = [[1, 1], [1, 1]], oldGrid = [[0, 1], [1, 1]],
         gridWidth = 2, gridHeight = 2 \<rparr> =
     Inr \<lparr> coords = neighbourOffsets, newGrid = [[1, 0], [1, 0]], oldGrid = [[1, 0], [1, 0]],
           gridWidth = 2, gridHeight = 2 \<rparr>"
proof -
  let ?s = "\<lparr> coords = neighbourOffsets, newGrid = [[1, 1], [1, 1]], oldGrid = [[0, 1], [1, 1]],
         gridWidth = 2, gridHeight = 2 \<rparr>"
  let ?G = "\<lambda>(sp::int) k. int (k mod 2)"
  have wf: "well_formed ?s" by (simp add: well_formed_def grid_dims_def)
  have r: "\<forall>k. 0 \<le> ?G 1 k \<and> ?G 1 k \<le> 1"
  proof
    fix k :: nat
    have "k mod 2 < 2" by simp
    then show "0 \<le> ?G 1 k \<and> ?G 1 k \<le> 1" by linarith
  qed
  from randomInitialization_overwrites_both_grids [of ?s 1 ?G, OF wf _ _ r]
  obtain s' where u: "randomInitialization ?G 1 ?s = Inr s'"
    and w: "well_formed s'" and d: "gridWidth s' = 2" "gridHeight s' = 2"
    and e: "newGrid s' = oldGrid s'"
    and c: "\<forall>i j. 0 \<le> i \<and> i < gridWidth ?s \<and> 0 \<le> j \<and> j < gridHeight ?s \<longrightarrow>
         grid_get (newGrid s') i j =
           Inr (if ?G 1 (nat i * nat (gridHeight ?s) + nat j) = 0 then 1 else 0) \<and>
         grid_get (oldGrid s') i j =
           Inr (if ?G 1 (nat i * nat (gridHeight ?s) + nat j) = 0 then 1 else 0)"
    by auto
  from c have "grid_get (newGrid s') i j = Inr (if (nat i * 2 + nat j) mod 2 = 0 then 1 else 0)"
    if "0 \<le> i" "i < 2" "0 \<le> j" "j < 2" for i j
    using that by simp
  from this [of 0 0] this [of 0 1] this [of 1 0] this [of 1 1]
  have cells: "grid_get (newGrid s') 0 0 = Inr 1" "grid_get (newGrid s') 0 1 = Inr 0"
    "grid_get (newGrid s') 1 0 = Inr 1" "grid_get (newGrid s') 1 1 = Inr 0"
    by simp_all
  from w d have g: "grid_dims (newGrid s') 2 2" and co: "coords s' = neighbourOffsets"
    by (simp_all add: well_formed_def)
  have g2: "grid_dims [[1, 0], [1, 0]] 2 2" by (simp add: grid_dims_def)
  have n: "newGrid s' = [[1, 0], [1, 0]]"
  proof (rule grid_eqI [OF g g2])
    fix x y :: nat assume "x < nat 2" "y < nat 2"
    then have "(x = 0 \<or> x = 1) \<and> (y = 0 \<or> y = 1)" by auto
    with cells show "newGrid s' ! x ! y = [[1, 0], [1, 0]] ! x ! y"
      by (auto simp: grid_get_def split: if_splits)
  qed
  have "s' = \<lparr> coords = neighbourOffsets, newGrid = [[1, 0], [1, 0]], oldGrid = [[1, 0], [1, 0]],
           gridWidth = 2, gridHeight = 2 \<rparr>"
    using n e co d by (cases s') simp
  with u show ?thesis by simp
qed

text \<open>
  C7, as the code has it. The claim: on every grid of at least 4 by 4 cells an interior
  2 by 2 block is a fixed point of \<open>update\<close>. On a grid of 32768 columns and 4 rows with the
  block in the columns and rows 1 and 2, the neighbour coordinate \<open>32767 + 1\<close> of the cell
  (32767, 0) does not fit a \<open>short\<close>: it is stored as -32768 and normalised to
  \<open>32768 - 1 - 32768 = -1\<close>, where wrapping around would give column 0. The read at that
  index is outside the vector and \<open>update\<close> does not return a grid.
\<close>

theorem block_update_fails_on_width_32768:
  "isl (update (block_engine 32768 4 1 1))"
proof (rule update_fails_if_count_fails [where x = 32767 and y = 0 and e = OutOfBounds])
  show "countLiveNeighbors
      (block_engine 32768 4 1 1\<lparr>oldGrid := newGrid (block_engine 32768 4 1 1),
         newGrid := oldGrid (block_engine 32768 4 1 1)\<rparr>)
      32767 0 (coords (block_engine 32768 4 1 1)) 0 = Inl OutOfBounds"
    by (simp add: block_engine_def neighbourOffsets_def verifyCoordBounds_def readGrid_def
        grid_get_block_grid to_short_def c_rem_def block_cell_def)
qed (simp_all add: block_engine_def)

text \<open>
  C8: two well-formed engines of the same width and height (in particular two freshly
  constructed ones), initialised by \<open>randomInitialization\<close> with the same generator stream
  and the same sparseness, are in the same state afterwards, and the outcomes of any equal
  number \<open>n\<close> of subsequent \<open>update\<close> calls are equal; for dimensions between 2 and 32767
  those calls run to completion.
\<close>

theorem same_stream_same_grids:
  assumes "well_formed s1" "well_formed s2"
    and "gridWidth s1 = gridWidth s2" "gridHeight s1 = gridHeight s2" "0 \<le> sparseness"
  shows "\<exists>t. randomInitialization std_gen sparseness s1 = Inr t \<and>
           randomInitialization std_gen sparseness s2 = Inr t \<and>
           (case randomInitialization std_gen sparseness s1 of
              Inl e \<Rightarrow> Inl e | Inr t1 \<Rightarrow> updates n t1) =
           (case randomInitialization std_gen sparseness s2 of
              Inl e \<Rightarrow> Inl e | Inr t2 \<Rightarrow> updates n t2) \<and>
           (2 \<le> gridWidth s1 \<and> gridWidth s1 \<le> 32767 \<and>
            2 \<le> gridHeight s1 \<and> gridHeight s1 \<le> 32767 \<longrightarrow>
              (\<exists>u. updates n t = Inr u))"
proof -
  let ?R = "random_grid (std_gen sparseness) (gridWidth s1) (gridHeight s1)"
  let ?t = "s1\<lparr>newGrid := ?R, oldGrid := ?R\<rparr>"
  have a: "randomInitialization std_gen sparseness s1 = Inr ?t"
    by (rule randomInitialization_wf [OF assms(1,5)])
  have "randomInitialization std_gen sparseness s2 = randomInitialization std_gen sparseness s1"
    using assms by (intro randomInitialization_same_dims) simp_all
  with a have b: "randomInitialization std_gen sparseness s2 = Inr ?t" by simp
  have wf: "well_formed ?t"
    using assms(1) by (simp add: well_formed_def grid_dims_random_grid)
  have c: "\<exists>u. updates n ?t = Inr u"
    if "2 \<le> gridWidth s1 \<and> gridWidth s1 \<le> 32767 \<and> 2 \<le> gridHeight s1 \<and> gridHeight s1 \<le> 32767"
  proof -
    from that wf have "steppable ?t" by (simp add: steppable_def)
    from updates_steppable [OF this, of n] show ?thesis by blast
  qed
  show ?thesis
  proof (rule exI [of _ ?t], intro conjI)
    show "(case randomInitialization std_gen sparseness s1 of
              Inl e \<Rightarrow> Inl e | Inr t1 \<Rightarrow> updates n t1) =
           (case randomInitialization std_gen sparseness s2 of
              Inl e \<Rightarrow> Inl e | Inr t2 \<Rightarrow> updates n t2)"
      by (simp add: a b)
    show "2 \<le> gridWidth s1 \<and> gridWidth s1 \<le> 32767 \<and>
            2 \<le> gridHeight s1 \<and> gridHeight s1 \<le> 32767 \<longrightarrow>
              (\<exists>u. updates n ?t = Inr u)"
      using c by blast
  qed (fact a b)+
qed

theorem same_stream_same_grids_witness:
  "\<exists>t. randomInitialization (\<lambda>sp k. int (k mod 2)) 1
           \<lparr> coords = neighbourOffsets, newGrid = [[0, 0], [0, 0]], oldGrid = [[0, 0], [0, 0]],
             gridWidth = 2, gridHeight = 2 \<rparr> = Inr t \<and>
        randomInitialization (\<lambda>sp k. int (k mod 2)) 1
           \<lparr> coords = neighbourOffsets, newGrid = [[1, 1], [1, 1]], oldGrid = [[0, 1], [1, 1]],
             gridWidth = 2, gridHeight = 2 \<rparr> = Inr t \<and>
        (\<exists>u. updates 2 t = Inr u)"
proof -
  let ?a = "\<lparr> coords = neighbourOffsets, newGrid = [[0, 0], [0, 0]], oldGrid = [[0, 0], [0, 0]],
             gridWidth = 2, gridHeight = 2 \<rparr>"
  let ?b = "\<lparr> coords = neighbourOffsets, newGrid = [[1, 1], [1, 1]], oldGrid = [[0, 1], [1, 1]],
             gridWidth = 2, gridHeight = 2 \<rparr>"
  have wa: "well_formed ?a" and wb: "well_formed ?b"
    by (simp_all add: well_formed_def grid_dims_def)
  have d: "gridWidth ?a = gridWidth ?b" "gridHeight ?a = gridHeight ?b" "(0::int) \<le> 1"
    by simp_all
  from same_stream_same_grids [OF wa wb d, of "\<lambda>sp k. int (k mod 2)" 2]
  obtain t where t: "randomInitialization (\<lambda>sp k. int (k mod 2)) 1 ?a = Inr t"
      "randomInitialization (\<lambda>sp k. int (k mod 2)) 1 ?b = Inr t"
    and u: "2 \<le> gridWidth ?a \<and> gridWidth ?a \<le> 32767 \<and>
            2 \<le> gridHeight ?a \<and> gridHeight ?a \<le> 32767 \<longrightarrow> (\<exists>u. updates 2 t = Inr u)"
    by blast
  from u have "\<exists>u. updates 2 t = Inr u" by simp
  with t show ?thesis by blast
qed

text \<open>
  C9: \<open>randomInitialization\<close> starts a freshly default-seeded generator at every call (the
  draw counter starts at 0 and the stream is the library's \<open>std_gen sparseness\<close>), so the
  grids it produces depend only on width, height and sparseness: they are
  \<open>random_grid (std_gen sparseness) gridWidth gridHeight\<close> for every well-formed engine of
  these dimensions, and a reset after any number of completed \<open>update\<close> calls gives back
  exactly the state of the first initialisation.
\<close>

theorem randomInitialization_reset_repeats_pattern:
  assumes "well_formed s" "0 \<le> sparseness"
  shows "\<exists>s1. randomInitialization std_gen sparseness s = Inr s1 \<and>
      newGrid s1 = random_grid (std_gen sparseness) (gridWidth s) (gridHeight s) \<and>
      oldGrid s1 = random_grid (std_gen sparseness) (gridWidth s) (gridHeight s) \<and>
      (\<forall>n s2. updates n s1 = Inr s2 \<longrightarrow> randomInitialization std_gen sparseness s2 = Inr s1) \<and>
      (\<forall>t. well_formed t \<and> gridWidth t = gridWidth s \<and> gridHeight t = gridHeight s \<longrightarrow>
         randomInitialization std_gen sparseness t = Inr s1)"
proof -
  let ?R = "random_grid (std_gen sparseness) (gridWidth s) (gridHeight s)"
  let ?s1 = "s\<lparr>newGrid := ?R, oldGrid := ?R\<rparr>"
  have a: "randomInitialization std_gen sparseness s = Inr ?s1"
    by (rule randomInitialization_wf [OF assms])
  have wf: "well_formed ?s1"
    using assms(1) by (simp add: well_formed_def grid_dims_random_grid)
  have same: "randomInitialization std_gen sparseness t = Inr ?s1"
    if "well_formed t \<and> gridWidth t = gridWidth s \<and> gridHeight t = gridHeight s" for t
    using randomInitialization_same_dims [OF assms(1), of t sparseness std_gen] that assms(2) a
    by simp
  have reset: "randomInitialization std_gen sparseness s2 = Inr ?s1"
    if "updates n ?s1 = Inr s2" for n s2
    using updates_well_formed [OF that wf] by (intro same) simp
  show ?thesis
    by (intro exI [of _ ?s1] conjI allI impI) (fact a, simp, simp, erule reset, erule same)
qed

theorem randomInitialization_reset_repeats_pattern_witness:
  "\<exists>s1 s2. randomInitialization (\<lambda>sp k. int (k mod 2)) 1
           \<lparr> coords = neighbourOffsets, newGrid = [[1, 1], [1, 1]], oldGrid = [[0, 1], [1, 1]],
             gridWidth = 2, gridHeight = 2 \<rparr> = Inr s1 \<and>
        updates 3 s1 = Inr s2 \<and>
        randomInitialization (\<lambda>sp k. int (k mod 2)) 1 s2 = Inr s1"
proof -
  let ?b = "\<lparr> coords = neighbourOffsets, newGrid = [[1, 1], [1, 1]], oldGrid = [[0, 1], [1, 1]],
             gridWidth = 2, gridHeight = 2 \<rparr>"
  let ?G = "\<lambda>(sp::int) k. int (k mod 2)"
  have wb: "well_formed ?b" by (simp add: well_formed_def grid_dims_def)
  from randomInitialization_reset_repeats_pattern [OF wb, of 1 ?G] obtain s1 where
    a: "randomInitialization ?G 1 ?b = Inr s1"
    and r: "\<And>n s2. updates n s1 = Inr s2 \<Longrightarrow> randomInitialization ?G 1 s2 = Inr s1"
    by auto
  from a have "s1 = ?b\<lparr>newGrid := random_grid (?G 1) 2 2, oldGrid := random_grid (?G 1) 2 2\<rparr>"
    using randomInitialization_wf [OF wb, of 1 ?G] by simp
  then have "steppable s1"
    by (simp add: steppable_def well_formed_def grid_dims_random_grid)
  from updates_steppable [OF this, of 3] obtain s2 where u: "updates 3 s1 = Inr s2" by blast
  from a u r [OF u] show ?thesis by blast
qed

text \<open>
  C10: every cell of both grids is 0 or 1. The constructor establishes it;
  \<open>randomInitialization\<close> establishes it on any well-formed engine, whatever the grids held;
  \<open>update\<close> preserves it (together with well-formedness), and on an engine with dimensions
  between 2 and 32767 it runs to completion and every cell of the grid it writes is 0 or 1.
\<close>

theorem cells_stay_binary:
  "(Conway_constructor w h = Inr s \<longrightarrow>
      well_formed s \<and> binary_grid (newGrid s) \<and> binary_grid (oldGrid s)) \<and>
   (well_formed s \<and> randomInitialization std_gen sparseness s = Inr s' \<longrightarrow>
      well_formed s' \<and> binary_grid (newGrid s') \<and> binary_grid (oldGrid s')) \<and>
   (well_formed s \<and> binary_grid (newGrid s) \<and> binary_grid (oldGrid s) \<and> update s = Inr s' \<longrightarrow>
      well_formed s' \<and> binary_grid (newGrid s') \<and> binary_grid (oldGrid s')) \<and>
   (well_formed s \<and> 2 \<le> gridWidth s \<and> gridWidth s \<le> 32767 \<and>
    2 \<le> gridHeight s \<and> gridHeight s \<le> 32767 \<longrightarrow>
      (\<exists>t. update s = Inr t \<and> binary_grid (newGrid t)))"
proof (intro conjI impI)
  assume c: "Conway_constructor w h = Inr s"
  then show "well_formed s" by (simp add: Conway_constructor_well_formed)
  from c show "binary_grid (newGrid s)" "binary_grid (oldGrid s)"
    by (auto simp: Conway_constructor_def binary_grid_def list_all_length split: if_splits)
next
  assume a: "well_formed s \<and> randomInitialization std_gen sparseness s = Inr s'"
  then have sp: "0 \<le> sparseness"
    by (cases "0 \<le> sparseness") (simp_all add: randomInitialization_def)
  from a randomInitialization_wf [of s sparseness std_gen] sp
  have s': "s' = s\<lparr>newGrid := random_grid (std_gen sparseness) (gridWidth s) (gridHeight s),
                   oldGrid := random_grid (std_gen sparseness) (gridWidth s) (gridHeight s)\<rparr>"
    by simp
  from a show "well_formed s'"
    unfolding s' by (simp add: well_formed_def grid_dims_random_grid)
  show "binary_grid (newGrid s')" "binary_grid (oldGrid s')"
    unfolding s' by (simp_all add: binary_random_grid)
next
  assume a: "well_formed s \<and> binary_grid (newGrid s) \<and> binary_grid (oldGrid s) \<and>
    update s = Inr s'"
  then show "well_formed s'" by (simp add: update_well_formed [of s s'])
  from a update_binary [of s s'] show "binary_grid (newGrid s')" "binary_grid (oldGrid s')"
    by simp_all
next
  assume a: "well_formed s \<and> 2 \<le> gridWidth s \<and> gridWidth s \<le> 32767 \<and>
    2 \<le> gridHeight s \<and> gridHeight s \<le> 32767"
  then have "steppable s" by (simp add: steppable_def)
  from update_steppable [OF this] obtain t where
    u: "update s = Inr t" and st: "steppable t"
      "gridWidth t = gridWidth s" "gridHeight t = gridHeight s"
    and cells: "\<And>x y. x < nat (gridWidth s) \<Longrightarrow> y < nat (gridHeight s) \<Longrightarrow>
        newGrid t ! x ! y = next_cell (s\<lparr>oldGrid := newGrid s\<rparr>) (int x) (int y)"
    by blast
  from st have g: "grid_dims (newGrid t) (gridWidth s) (gridHeight s)"
    by (simp add: steppable_def well_formed_def)
  have "binary_grid (newGrid t)"
    by (rule binary_grid_cells [OF g]) (simp add: cells next_cell_binary)
  with u show "\<exists>t. update s = Inr t \<and> binary_grid (newGrid t)" by blast
qed

theorem cells_stay_binary_witness:
  "(\<exists>s. Conway_constructor 2 2 = Inr s \<and> well_formed s \<and>
        binary_grid (newGrid s) \<and> binary_grid (oldGrid s)) \<and>
   (\<exists>s'. randomInitialization (\<lambda>sp k. int (k mod 2)) 1
           \<lparr> coords = neighbourOffsets, newGrid = [[1, 1], [1, 1]], oldGrid = [[0, 1], [1, 1]],
             gridWidth = 2, gridHeight = 2 \<rparr> = Inr s' \<and>
         binary_grid (newGrid s') \<and> binary_grid (oldGrid s')) \<and>
   binary_grid [[1, 0], [0, 0]]"
proof -
  let ?b = "\<lparr> coords = neighbourOffsets, newGrid = [[1, 1], [1, 1]], oldGrid = [[0, 1], [1, 1]],
             gridWidth = 2, gridHeight = 2 \<rparr>"
  let ?c = "\<lparr> coords = neighbourOffsets, newGrid = [[1, 0], [0, 0]], oldGrid = [[0, 0], [0, 1]],
            gridWidth = 2, gridHeight = 2 \<rparr>"
  let ?c' = "\<lparr> coords = neighbourOffsets, newGrid = [[1, 0], [0, 0]], oldGrid = [[1, 0], [0, 0]],
            gridWidth = 2, gridHeight = 2 \<rparr>"
  let ?G = "\<lambda>(sp::int) k. int (k mod 2)"
  obtain z where z: "Conway_constructor 2 2 = Inr z" by (simp add: Conway_constructor_def)
  from cells_stay_binary [of 2 2 z] z
  have one: "\<exists>s. Conway_constructor 2 2 = Inr s \<and> well_formed s \<and>
        binary_grid (newGrid s) \<and> binary_grid (oldGrid s)" by simp
  have wb: "well_formed ?b" by (simp add: well_formed_def grid_dims_def)
  from randomInitialization_wf [OF wb, of 1 ?G] obtain s' where
    r: "randomInitialization ?G 1 ?b = Inr s'" by simp
  from cells_stay_binary [of _ _ ?b ?G 1 s'] wb r
  have two: "\<exists>s'. randomInitialization ?G 1 ?b = Inr s' \<and>
         binary_grid (newGrid s') \<and> binary_grid (oldGrid s')" by simp
  have wc: "well_formed ?c" by (simp add: well_formed_def grid_dims_def)
  have bc: "binary_grid (newGrid ?c)" "binary_grid (oldGrid ?c)"
    by (simp_all add: binary_grid_def)
  from cells_stay_binary [of _ _ ?c _ _ ?c'] wc bc update_2x2_example
  have three: "binary_grid [[1, 0], [0, 0]]" by simp
  from one two three show ?thesis by blast
qed

end
